theory Spec2Isabelle
  imports Complex_Main "HOL-Library.Sublist"
begin

section \<open>Strings\<close>

text \<open>
  A JavaScript string is a sequence of UTF-16 code units. The embedding uses
  \<^typ>\<open>string\<close>; a \<^typ>\<open>char\<close> is read as a code unit below 256 (Basic Latin and
  Latin-1 Supplement), which covers every literal of the source.
\<close>

definition toLowerChar :: "char \<Rightarrow> char" where
  "toLowerChar c =
     (let n = (of_char c :: nat)
      in if (65 \<le> n \<and> n \<le> 90) \<or> (192 \<le> n \<and> n \<le> 222 \<and> n \<noteq> 215)
         then char_of (n + 32) else c)"

definition toLowerCase :: "string \<Rightarrow> string" where
  "toLowerCase s = map toLowerChar s"

fun startsWith :: "string \<Rightarrow> string \<Rightarrow> bool" where
  "startsWith s [] = True"
| "startsWith [] (p # ps) = False"
| "startsWith (c # cs) (p # ps) = (c = p \<and> startsWith cs ps)"

fun str_includes :: "string \<Rightarrow> string \<Rightarrow> bool" where
  "str_includes [] sub = (sub = [])"
| "str_includes (c # cs) sub = (startsWith (c # cs) sub \<or> str_includes cs sub)"

section \<open>Document type detection (remember\_artifact)\<close>

definition detectDocumentType :: "string \<Rightarrow> string" where
  "detectDocumentType content =
     (let lower = toLowerCase content
      in if str_includes lower ''product requirements'' \<or> str_includes lower ''user stories''
            \<or> str_includes lower ''acceptance criteria'' then ''PRD''
         else if str_includes lower ''technical specification'' \<or> str_includes lower ''architecture''
            \<or> str_includes lower ''api reference'' then ''TechnicalSpec''
         else if str_includes lower ''feature request'' \<or> str_includes lower ''user story''
            then ''FeatureRequest''
         else if str_includes lower ''journal'' then ''Journal''
         else ''Documentation'')"

text \<open>
  \<open>documentType || detectDocumentType(thingToRemember)\<close>: an omitted argument is
  \<open>undefined\<close>, and the empty string is falsy as well.
\<close>

definition finalDocType :: "string option \<Rightarrow> string \<Rightarrow> string" where
  "finalDocType documentType thingToRemember =
     (case documentType of
        None \<Rightarrow> detectDocumentType thingToRemember
      | Some t \<Rightarrow> if t = [] then detectDocumentType thingToRemember else t)"

subsection \<open>The inference rules as the specification words them\<close>

text \<open>
  A keyword is present in a text, case-insensitively, when some contiguous piece of the
  text equals the keyword once letter case is forgotten on both sides.
\<close>

definition present_ci :: "string \<Rightarrow> string \<Rightarrow> bool" where
  "present_ci keyword text \<longleftrightarrow>
     (\<exists>pre mid post. text = pre @ mid @ post \<and> map toLowerChar mid = map toLowerChar keyword)"

definition inference_rules :: "(string list \<times> string) list" where
  "inference_rules =
     [([''product requirements'', ''user stories'', ''acceptance criteria''], ''PRD''),
      ([''technical specification'', ''architecture'', ''api reference''], ''TechnicalSpec''),
      ([''feature request'', ''user story''], ''FeatureRequest''),
      ([''journal''], ''Journal'')]"

definition rule_matches :: "string \<Rightarrow> string list \<times> string \<Rightarrow> bool" where
  "rule_matches text rule = list_ex (\<lambda>keyword. present_ci keyword text) (fst rule)"

definition first_matching_rule :: "string \<Rightarrow> string" where
  "first_matching_rule text =
     (case find (rule_matches text) inference_rules of
        Some rule \<Rightarrow> snd rule
      | None \<Rightarrow> ''Documentation'')"

section \<open>The external services\<close>

type_synonym vector = "real list"

text \<open>
  A thrown value is an \<open>Error\<close> with its message, or some other value, of which only
  the text \<open>String(value)\<close> is kept.
\<close>

datatype thrown = Error string | NonError string

text \<open>\<open>error instanceof Error ? error.message : 'Unknown error'\<close>\<close>

definition errorMessage :: "thrown \<Rightarrow> string" where
  "errorMessage e = (case e of Error m \<Rightarrow> m | NonError s \<Rightarrow> ''Unknown error'')"

text \<open>\<open>String(error)\<close>\<close>

definition String_of :: "thrown \<Rightarrow> string" where
  "String_of e = (case e of Error m \<Rightarrow> ''Error: '' @ m | NonError s \<Rightarrow> s)"

datatype ai_reply = AiThrows thrown | AiData "vector list"

record vector_entry =
  v_id :: string
  v_values :: vector
  v_namespace :: string
  v_metadata :: "(string \<times> string) list"

record vmatch =
  match_id :: string
  match_score :: real
  match_content :: "string option"

record queryOptions =
  q_namespace :: string
  q_topK :: nat
  q_filter :: "(string \<times> string) list option"

datatype vcall =
    Upsert "vector_entry list"
  | Query vector queryOptions
  | GetByIds "string list"
  | DeleteByIds "string list"

record row =
  r_id :: string
  r_userId :: string
  r_content :: string

text \<open>
  The state of the external world. \<open>vindex\<close> is the content of the Vectorize index and
  \<open>memories\<close> the D1 table. What the services do is given call by call: the \<open>n\<close>-th
  call of the embedding model answers \<open>AI_replies n\<close>, the \<open>n\<close>-th call of Vectorize
  throws when \<open>VECTORIZE_faults n\<close> says so and, if it is a query, returns the matches
  \<open>VECTORIZE_matches n\<close>, the \<open>n\<close>-th D1 statement throws when \<open>DB_faults n\<close> says so.
  The logs record the calls made; \<open>uuids\<close> and \<open>clock\<close> are the values that
  \<open>uuidv4()\<close> and \<open>new Date().toISOString()\<close> produce, in order.
\<close>

record world =
  vindex :: "vector_entry list"
  memories :: "row list"
  AI_replies :: "nat \<Rightarrow> ai_reply"
  AI_log :: "string list"
  VECTORIZE_faults :: "nat \<Rightarrow> thrown option"
  VECTORIZE_matches :: "nat \<Rightarrow> vmatch list option"
  VECTORIZE_log :: "vcall list"
  DB_faults :: "nat \<Rightarrow> thrown option"
  DB_calls :: nat
  uuids :: "nat \<Rightarrow> string"
  uuid_calls :: nat
  clock :: "nat \<Rightarrow> string"
  clock_reads :: nat

definition AI_run :: "string \<Rightarrow> world \<Rightarrow> (thrown + vector list) \<times> world" where
  "AI_run text w =
     (let w' = w\<lparr>AI_log := AI_log w @ [text]\<rparr>
      in case AI_replies w (length (AI_log w)) of
           AiThrows e \<Rightarrow> (Inl e, w')
         | AiData d \<Rightarrow> (Inr d, w'))"

definition VECTORIZE_query ::
  "vector \<Rightarrow> queryOptions \<Rightarrow> world \<Rightarrow> (thrown + vmatch list option) \<times> world" where
  "VECTORIZE_query v opts w =
     (let n = length (VECTORIZE_log w); w' = w\<lparr>VECTORIZE_log := VECTORIZE_log w @ [Query v opts]\<rparr>
      in case VECTORIZE_faults w n of
           Some e \<Rightarrow> (Inl e, w')
         | None \<Rightarrow> (Inr (VECTORIZE_matches w n), w'))"

section \<open>Array.prototype.sort\<close>

text \<open>
  The result of a comparison function is a number or NaN, and NaN counts as 0. The sort is
  modelled as a stable insertion sort: this is the order of every conforming
  implementation when the comparison function is consistent. When it is not (some results
  are NaN, on three elements or more), ECMAScript leaves the order to the implementation,
  and the model fixes one such order.
\<close>

datatype jsnum = Num real | NaN

definition sortCompare :: "jsnum \<Rightarrow> real" where
  "sortCompare v = (case v of NaN \<Rightarrow> 0 | Num r \<Rightarrow> r)"

fun insert_by :: "('a \<Rightarrow> 'a \<Rightarrow> jsnum) \<Rightarrow> 'a \<Rightarrow> 'a list \<Rightarrow> 'a list" where
  "insert_by cmp x [] = [x]"
| "insert_by cmp x (y # ys) =
     (if sortCompare (cmp x y) > 0 then y # insert_by cmp x ys else x # y # ys)"

definition array_sort :: "('a \<Rightarrow> 'a \<Rightarrow> jsnum) \<Rightarrow> 'a list \<Rightarrow> 'a list" where
  "array_sort cmp xs = foldr (insert_by cmp) xs []"

section \<open>vectorize.ts\<close>

definition MINIMUM_SIMILARITY_SCORE :: real where
  "MINIMUM_SIMILARITY_SCORE = 5 / 10"

definition generateEmbeddings :: "string \<Rightarrow> world \<Rightarrow> (thrown + vector) \<times> world" where
  "generateEmbeddings text w =
     (case AI_run text w of
        (Inl e, w') \<Rightarrow> (Inl e, w')
      | (Inr d, w') \<Rightarrow>
          (case d of
             [] \<Rightarrow> (Inl (Error ''Failed to generate vector embedding''), w')
           | values # _ \<Rightarrow> (Inr values, w')))"

record memory =
  mem_content :: string
  mem_score :: real
  mem_id :: string

definition match_to_memory :: "vmatch \<Rightarrow> memory" where
  "match_to_memory m =
     \<lparr>mem_content =
        (case match_content m of
           Some c \<Rightarrow> c
         | None \<Rightarrow>
             if match_id m \<noteq> [] then ''Missing memory content (ID: '' @ match_id m @ '')''
             else ''Missing memory content''),
      mem_score = (if match_score m = 0 then 0 else match_score m),
      mem_id = match_id m\<rparr>"

definition searchMemories ::
  "string \<Rightarrow> string \<Rightarrow> (string \<times> string) list option \<Rightarrow> world
     \<Rightarrow> (thrown + memory list) \<times> world" where
  "searchMemories query userId metadataFilters w =
     (case generateEmbeddings query w of
        (Inl e, w1) \<Rightarrow> (Inl e, w1)
      | (Inr queryVector, w1) \<Rightarrow>
          (let queryOptions = \<lparr>q_namespace = userId, q_topK = 10, q_filter = metadataFilters\<rparr>
           in case VECTORIZE_query queryVector queryOptions w1 of
                (Inl e, w2) \<Rightarrow> (Inl e, w2)
              | (Inr results, w2) \<Rightarrow>
                  (case results of
                     None \<Rightarrow> (Inr [], w2)
                   | Some matches \<Rightarrow>
                       if matches = [] then (Inr [], w2)
                       else
                         (Inr (array_sort (\<lambda>a b. Num (mem_score b - mem_score a))
                                 (map match_to_memory
                                    (filter (\<lambda>m. match_score m > MINIMUM_SIMILARITY_SCORE) matches))),
                          w2))))"

text \<open>A world whose index answers a query with four matches scoring 0.3, 0.5, 0.51, 0.9.\<close>

definition search_world :: world where
  "search_world = \<lparr>vindex = [], memories = [],
      AI_replies = (\<lambda>n. AiData [[1]]), AI_log = [],
      VECTORIZE_faults = (\<lambda>n. None),
      VECTORIZE_matches = (\<lambda>n. Some
        [\<lparr>match_id = ''a'', match_score = 3 / 10, match_content = Some ''A''\<rparr>,
         \<lparr>match_id = ''b'', match_score = 5 / 10, match_content = Some ''B''\<rparr>,
         \<lparr>match_id = ''c'', match_score = 51 / 100, match_content = Some ''C''\<rparr>,
         \<lparr>match_id = ''d'', match_score = 9 / 10, match_content = None\<rparr>]),
      VECTORIZE_log = [], DB_faults = (\<lambda>n. None), DB_calls = 0,
      uuids = (\<lambda>n. ''u''), uuid_calls = 0,
      clock = (\<lambda>n. ''2025-01-01T00:00:00.000Z''), clock_reads = 0\<rparr>"

section \<open>Vectorize and D1 operations\<close>

text \<open>
  The index is kept as the list of its vectors. The Vectorize binding identifies a vector
  by its id alone: \<open>upsert\<close> replaces the vector with the same id, \<open>getByIds\<close> and
  \<open>deleteByIds\<close> take ids and no namespace. A call that throws leaves the index as it
  was.
\<close>

definition VECTORIZE_upsert :: "vector_entry list \<Rightarrow> world \<Rightarrow> (thrown + unit) \<times> world" where
  "VECTORIZE_upsert vectors w =
     (let n = length (VECTORIZE_log w); w' = w\<lparr>VECTORIZE_log := VECTORIZE_log w @ [Upsert vectors]\<rparr>
      in case VECTORIZE_faults w n of
           Some e \<Rightarrow> (Inl e, w')
         | None \<Rightarrow> (Inr (), w'\<lparr>vindex := fold (\<lambda>v idx. filter (\<lambda>u. v_id u \<noteq> v_id v) idx @ [v]) vectors (vindex w)\<rparr>))"

definition VECTORIZE_getByIds :: "string list \<Rightarrow> world \<Rightarrow> (thrown + vector_entry list) \<times> world" where
  "VECTORIZE_getByIds ids w =
     (let n = length (VECTORIZE_log w); w' = w\<lparr>VECTORIZE_log := VECTORIZE_log w @ [GetByIds ids]\<rparr>
      in case VECTORIZE_faults w n of
           Some e \<Rightarrow> (Inl e, w')
         | None \<Rightarrow> (Inr (filter (\<lambda>v. v_id v \<in> set ids) (vindex w)), w'))"

definition VECTORIZE_deleteByIds :: "string list \<Rightarrow> world \<Rightarrow> (thrown + unit) \<times> world" where
  "VECTORIZE_deleteByIds ids w =
     (let n = length (VECTORIZE_log w); w' = w\<lparr>VECTORIZE_log := VECTORIZE_log w @ [DeleteByIds ids]\<rparr>
      in case VECTORIZE_faults w n of
           Some e \<Rightarrow> (Inl e, w')
         | None \<Rightarrow> (Inr (), w'\<lparr>vindex := filter (\<lambda>v. v_id v \<notin> set ids) (vindex w)\<rparr>))"

definition uuidv4 :: "world \<Rightarrow> string \<times> world" where
  "uuidv4 w = (uuids w (uuid_calls w), w\<lparr>uuid_calls := Suc (uuid_calls w)\<rparr>)"

section \<open>vectorize.ts: deleteVectorById\<close>

definition deleteVectorById :: "string \<Rightarrow> string \<Rightarrow> world \<Rightarrow> (thrown + unit) \<times> world" where
  "deleteVectorById memoryId userId w =
     (case VECTORIZE_deleteByIds [memoryId] w of
        (Inl error, w') \<Rightarrow> (Inl error, w')
      | (Inr result, w') \<Rightarrow> (Inr (), w'))"

text \<open>An index holding one vector of namespace bob, and no fault.\<close>

definition delete_world :: world where
  "delete_world =
     \<lparr>vindex = [\<lparr>v_id = ''m1'', v_values = [1], v_namespace = ''bob'',
                 v_metadata = [(''content'', ''hello''), (''type'', ''memory'')]\<rparr>],
      memories = [],
      AI_replies = (\<lambda>n. AiData [[1]]), AI_log = [],
      VECTORIZE_faults = (\<lambda>n. None), VECTORIZE_matches = (\<lambda>n. None), VECTORIZE_log = [],
      DB_faults = (\<lambda>n. None), DB_calls = 0,
      uuids = (\<lambda>n. ''u''), uuid_calls = 0,
      clock = (\<lambda>n. ''2025-01-01T00:00:00.000Z''), clock_reads = 0\<rparr>"

section \<open>The store path: vectorize.ts storeMemory and db.ts storeMemoryInD1\<close>

definition storeMemory :: "string \<Rightarrow> string \<Rightarrow> world \<Rightarrow> (thrown + string) \<times> world" where
  "storeMemory text userId w =
     (case uuidv4 w of
        (memoryId, w1) \<Rightarrow>
          (case generateEmbeddings text w1 of
             (Inl e, w2) \<Rightarrow> (Inl e, w2)
           | (Inr values, w2) \<Rightarrow>
               (case VECTORIZE_upsert
                       [\<lparr>v_id = memoryId, v_values = values, v_namespace = userId,
                         v_metadata = [(''content'', text), (''type'', ''memory'')]\<rparr>] w2 of
                  (Inl e, w3) \<Rightarrow> (Inl e, w3)
                | (Inr u, w3) \<Rightarrow> (Inr memoryId, w3))))"

text \<open>
  \<open>INSERT INTO memories (id, userId, content) VALUES (?, ?, ?)\<close> on the table created by
  \<open>initializeDatabase\<close>, whose columns are id (primary key), userId, content and
  created\_at (filled by its default). The table is kept as the list of its rows.
\<close>

definition DB_insert :: "string \<Rightarrow> string \<Rightarrow> string \<Rightarrow> world \<Rightarrow> (thrown + unit) \<times> world" where
  "DB_insert memoryId userId content w =
     (let w' = w\<lparr>DB_calls := Suc (DB_calls w)\<rparr>
      in case DB_faults w (DB_calls w) of
           Some e \<Rightarrow> (Inl e, w')
         | None \<Rightarrow>
             if memoryId \<in> set (map r_id (memories w))
             then (Inl (Error ''UNIQUE constraint failed: memories.id''), w')
             else (Inr (), w'\<lparr>memories :=
                      \<lparr>r_id = memoryId, r_userId = userId, r_content = content\<rparr> # memories w\<rparr>))"

text \<open>The parameter \<open>memoryId\<close> defaults to a fresh \<open>uuidv4()\<close> when it is not passed.\<close>

definition storeMemoryInD1 ::
  "string \<Rightarrow> string \<Rightarrow> string option \<Rightarrow> world \<Rightarrow> (thrown + string) \<times> world" where
  "storeMemoryInD1 content userId memoryId_arg w =
     (case (case memoryId_arg of Some i \<Rightarrow> (i, w) | None \<Rightarrow> uuidv4 w) of
        (memoryId, w1) \<Rightarrow>
          (case DB_insert memoryId userId content w1 of
             (Inl error, w2) \<Rightarrow> (Inl error, w2)
           | (Inr u, w2) \<Rightarrow> (Inr memoryId, w2)))"

section \<open>The add\_to\_memory tool that takes title, documentType, projectName and tags\<close>

definition detectDocumentType_memory :: "string \<Rightarrow> string" where
  "detectDocumentType_memory content =
     (let lower = toLowerCase content
      in if str_includes lower ''product requirements'' \<or> str_includes lower ''user stories''
            \<or> str_includes lower ''acceptance criteria'' then ''prd''
         else if str_includes lower ''technical specification'' \<or> str_includes lower ''architecture''
            \<or> str_includes lower ''api reference'' then ''technical_spec''
         else if str_includes lower ''feature request'' \<or> str_includes lower ''user story''
            then ''feature_request''
         else if str_includes lower ''journal'' then ''journal''
         else ''memory'')"

record metadata =
  md_title :: "string option"
  md_projectName :: "string option"
  md_tags :: "string list"

text \<open>
  An argument value of a call: a string, or the text \<open>JSON.stringify(metadata)\<close>, which
  is kept as the object it renders.
\<close>

datatype argument = Str string | Json metadata

text \<open>
  The tool calls \<open>storeMemoryInD1(thingToRemember, userId, env, memoryId, type,
  JSON.stringify(metadata))\<close>. The function declares the parameters content, userId, env
  and memoryId; a JavaScript call binds the declared parameters and drops the arguments
  beyond them.
\<close>

definition call_storeMemoryInD1 ::
  "string \<Rightarrow> string \<Rightarrow> string \<Rightarrow> argument list \<Rightarrow> world \<Rightarrow> (thrown + string) \<times> world" where
  "call_storeMemoryInD1 content userId memoryId extra w =
     storeMemoryInD1 content userId (Some memoryId) w"

definition add_to_memory_ext ::
  "string \<Rightarrow> string option \<Rightarrow> string list option \<Rightarrow> string option \<Rightarrow> string option
     \<Rightarrow> string \<Rightarrow> world \<Rightarrow> string \<times> world" where
  "add_to_memory_ext thingToRemember title tags documentType projectName userId w =
     (let type = detectDocumentType_memory thingToRemember;
          metadata = \<lparr>md_title = title, md_projectName = projectName,
                      md_tags = (case tags of Some ts \<Rightarrow> ts | None \<Rightarrow> [])\<rparr>
      in case storeMemory thingToRemember userId w of
           (Inl error, w1) \<Rightarrow> (''Failed to remember: '' @ String_of error, w1)
         | (Inr memoryId, w1) \<Rightarrow>
             (case call_storeMemoryInD1 thingToRemember userId memoryId
                     [Str type, Json metadata] w1 of
                (Inl error, w2) \<Rightarrow> (''Failed to remember: '' @ String_of error, w2)
              | (Inr i, w2) \<Rightarrow> (''Remembered: '' @ thingToRemember, w2)))"

text \<open>Empty stores, no fault, and the id generator answering \<open>id-1\<close>.\<close>

definition fresh_world :: world where
  "fresh_world =
     \<lparr>vindex = [], memories = [],
      AI_replies = (\<lambda>n. AiData [[1]]), AI_log = [],
      VECTORIZE_faults = (\<lambda>n. None), VECTORIZE_matches = (\<lambda>n. None), VECTORIZE_log = [],
      DB_faults = (\<lambda>n. None), DB_calls = 0,
      uuids = (\<lambda>n. ''id-1''), uuid_calls = 0,
      clock = (\<lambda>n. ''2025-01-01T00:00:00.000Z''), clock_reads = 0\<rparr>"

section \<open>reconstruct\_artifact: ordering the sections\<close>

text \<open>
  A value read from the object literal \<open>order\<close>: a number for one of its own
  properties, \<open>undefined\<close> for an absent key, or the function or object found on
  \<open>Object.prototype\<close> when the key names one of that prototype's properties.
\<close>

datatype jsval = Undefined | Number real | Inherited string

definition Object_prototype_keys :: "string list" where
  "Object_prototype_keys =
     [''constructor'', ''__defineGetter__'', ''__defineSetter__'', ''hasOwnProperty'',
      ''__lookupGetter__'', ''__lookupSetter__'', ''isPrototypeOf'', ''propertyIsEnumerable'',
      ''toString'', ''valueOf'', ''__proto__'', ''toLocaleString'']"

definition order_table :: "(string \<times> real) list" where
  "order_table =
     [(''Executive Summary'', 1), (''Overview'', 2), (''Problem Statement'', 3),
      (''Solution Approach'', 4), (''Requirements'', 5), (''Success Criteria'', 6),
      (''Timeline'', 7)]"

text \<open>\<open>order[key]\<close>\<close>

definition get_property :: "(string \<times> real) list \<Rightarrow> string \<Rightarrow> jsval" where
  "get_property obj key =
     (case map_of obj key of
        Some n \<Rightarrow> Number n
      | None \<Rightarrow> if key \<in> set Object_prototype_keys then Inherited key else Undefined)"

text \<open>\<open>value || d\<close>: \<open>undefined\<close> and 0 are falsy, functions and objects are truthy.\<close>

definition or_default :: "jsval \<Rightarrow> real \<Rightarrow> jsval" where
  "or_default v d =
     (case v of
        Undefined \<Rightarrow> Number d
      | Number n \<Rightarrow> if n = 0 then Number d else Number n
      | Inherited k \<Rightarrow> Inherited k)"

text \<open>\<open>a - b\<close>: a function or object converts to NaN.\<close>

definition js_minus :: "jsval \<Rightarrow> jsval \<Rightarrow> jsnum" where
  "js_minus a b =
     (case (a, b) of
        (Number x, Number y) \<Rightarrow> Num (x - y)
      | _ \<Rightarrow> NaN)"

record doc_section =
  sec_metadata :: "(string \<times> string) list"
  sec_content :: string
  sec_id :: string
  sectionName :: string
  sectionType :: string

text \<open>
  The comparison function passed to \<open>sections.sort\<close>. \<open>localeCompare\<close> is the host's
  collation of two strings and is a parameter.
\<close>

definition compare_sections ::
  "(string \<Rightarrow> string \<Rightarrow> real) \<Rightarrow> doc_section \<Rightarrow> doc_section \<Rightarrow> jsnum" where
  "compare_sections localeCompare a b =
     (let aOrder = or_default (get_property order_table (sectionName a)) 999;
          bOrder = or_default (get_property order_table (sectionName b)) 999
      in if aOrder \<noteq> bOrder then js_minus aOrder bOrder
         else Num (localeCompare (sectionName a) (sectionName b)))"

definition sort_sections ::
  "(string \<Rightarrow> string \<Rightarrow> real) \<Rightarrow> doc_section list \<Rightarrow> doc_section list" where
  "sort_sections localeCompare sections = array_sort (compare_sections localeCompare) sections"

definition titled :: "string \<Rightarrow> doc_section" where
  "titled name = \<lparr>sec_metadata = [(''SECTION'', name)], sec_content = ''text'', sec_id = ''i'',
                   sectionName = name, sectionType = ''section''\<rparr>"

section \<open>db.ts: getAllMemoriesFromD1\<close>

text \<open>
  \<open>SELECT id, content FROM memories WHERE userId = ? ORDER BY created\_at DESC\<close>. The
  table is the list of its rows in the order in which the query returns them: newest
  first, rows of equal \<open>created\_at\<close> in the order the database gives them.
\<close>

definition getAllMemoriesFromD1 :: "string \<Rightarrow> world \<Rightarrow> (thrown + row list) \<times> world" where
  "getAllMemoriesFromD1 userId w =
     (let w' = w\<lparr>DB_calls := Suc (DB_calls w)\<rparr>
      in case DB_faults w (DB_calls w) of
           Some error \<Rightarrow> (Inl error, w')
         | None \<Rightarrow> (Inr (filter (\<lambda>r. r_userId r = userId) (memories w)), w'))"

section \<open>vectorize.ts: restoreMissingMemoriesToVectorize\<close>

record error_entry =
  err_memoryId :: string
  err_error :: string

record restore_result =
  restored :: nat
  errors :: "error_entry list"

definition CHUNK_SIZE :: nat where
  "CHUNK_SIZE = 10"

text \<open>\<open>for (i = 0; i < memories.length; i += CHUNK\_SIZE) chunks.push(memories.slice(i, i + CHUNK\_SIZE))\<close>\<close>

function chunks_of :: "'a list \<Rightarrow> 'a list list" where
  "chunks_of xs = (if xs = [] then [] else take CHUNK_SIZE xs # chunks_of (drop CHUNK_SIZE xs))"
  by pat_completeness auto
termination
  by (relation "measure length") (auto simp: CHUNK_SIZE_def)

text \<open>
  The inner loop over \<open>missingMemories\<close>: one embedding call per memory; a failure is
  pushed on \<open>errors\<close>, a success on \<open>vectorsToUpsert\<close>. The delays between calls take
  time only.
\<close>

fun embed_missing ::
  "string \<Rightarrow> row list \<Rightarrow> vector_entry list \<Rightarrow> error_entry list \<Rightarrow> world
     \<Rightarrow> vector_entry list \<times> error_entry list \<times> world" where
  "embed_missing userId [] vectorsToUpsert errs w = (vectorsToUpsert, errs, w)"
| "embed_missing userId (memory # rest) vectorsToUpsert errs w =
     (case generateEmbeddings (r_content memory) w of
        (Inr values, w') \<Rightarrow>
          embed_missing userId rest
            (vectorsToUpsert @
               [\<lparr>v_id = r_id memory, v_values = values, v_namespace = userId,
                 v_metadata = [(''content'', r_content memory), (''type'', ''memory'')]\<rparr>])
            errs w'
      | (Inl error, w') \<Rightarrow>
          embed_missing userId rest vectorsToUpsert
            (errs @ [\<lparr>err_memoryId = r_id memory,
                       err_error = ''Failed to generate embedding: '' @ errorMessage error\<rparr>])
            w')"

text \<open>
  \<open>existingIds = new Set(existingVectors.map(v => v.id))\<close> and
  \<open>chunk.filter(memory => !existingIds.has(memory.id))\<close>.
\<close>

definition missing_memories :: "vector_entry list \<Rightarrow> row list \<Rightarrow> row list" where
  "missing_memories existingVectors chunk =
     (let existingIds = set (map v_id existingVectors)
      in filter (\<lambda>memory. r_id memory \<notin> existingIds) chunk)"

text \<open>
  The body of the \<open>try\<close> of one chunk. The variables \<open>restored\<close> and \<open>errors\<close> live
  outside the \<open>try\<close>, so what was pushed before a throw stays.
\<close>

definition chunk_try ::
  "string \<Rightarrow> row list \<Rightarrow> nat \<times> error_entry list \<times> world
     \<Rightarrow> (thrown + unit) \<times> nat \<times> error_entry list \<times> world" where
  "chunk_try userId chunk st =
     (case st of (rest, errs, w) \<Rightarrow>
        (case VECTORIZE_getByIds (map r_id chunk) w of
           (Inl error, w1) \<Rightarrow> (Inl error, rest, errs, w1)
         | (Inr existingVectors, w1) \<Rightarrow>
             (let missingMemories = missing_memories existingVectors chunk
              in if missingMemories = [] then (Inr (), rest, errs, w1)
                 else
                   (case embed_missing userId missingMemories [] errs w1 of
                      (vectorsToUpsert, errs2, w2) \<Rightarrow>
                        if vectorsToUpsert \<noteq> [] then
                          (case VECTORIZE_upsert vectorsToUpsert w2 of
                             (Inl error, w3) \<Rightarrow> (Inl error, rest, errs2, w3)
                           | (Inr u, w3) \<Rightarrow>
                               (Inr (), rest + length vectorsToUpsert, errs2, w3))
                        else (Inr (), rest, errs2, w2)))))"

text \<open>The \<open>try\<close> with its \<open>catch\<close>: an error for every memory of the chunk.\<close>

definition restore_chunk ::
  "string \<Rightarrow> row list \<Rightarrow> nat \<times> error_entry list \<times> world \<Rightarrow> nat \<times> error_entry list \<times> world" where
  "restore_chunk userId chunk st =
     (case chunk_try userId chunk st of
        (Inr u, st') \<Rightarrow> st'
      | (Inl error, rest, errs, w') \<Rightarrow>
          (rest,
           errs @ map (\<lambda>memory. \<lparr>err_memoryId = r_id memory,
                          err_error = ''Chunk processing failed: '' @ errorMessage error\<rparr>) chunk,
           w'))"

fun restore_chunks ::
  "string \<Rightarrow> row list list \<Rightarrow> nat \<times> error_entry list \<times> world \<Rightarrow> nat \<times> error_entry list \<times> world" where
  "restore_chunks userId [] st = st"
| "restore_chunks userId (chunk # rest) st = restore_chunks userId rest (restore_chunk userId chunk st)"

text \<open>The body of the outer \<open>try\<close>.\<close>

definition restore_try ::
  "string \<Rightarrow> world \<Rightarrow> (thrown + restore_result) \<times> nat \<times> error_entry list \<times> world" where
  "restore_try userId w =
     (case getAllMemoriesFromD1 userId w of
        (Inl error, w1) \<Rightarrow> (Inl error, 0, [], w1)
      | (Inr mems, w1) \<Rightarrow>
          if length mems = 0 then (Inr \<lparr>restored = 0, errors = []\<rparr>, 0, [], w1)
          else
            (case restore_chunks userId (chunks_of mems) (0, [], w1) of
               (rest, errs, w2) \<Rightarrow> (Inr \<lparr>restored = rest, errors = errs\<rparr>, rest, errs, w2)))"

text \<open>
  The whole function. \<open>Inl\<close> stands for a rejected promise, \<open>Inr\<close> for the returned
  record.
\<close>

definition restoreMissingMemoriesToVectorize ::
  "string \<Rightarrow> world \<Rightarrow> (thrown + restore_result) \<times> world" where
  "restoreMissingMemoriesToVectorize userId w =
     (case restore_try userId w of
        (Inr result, rest, errs, w') \<Rightarrow> (Inr result, w')
      | (Inl error, rest, errs, w') \<Rightarrow>
          (Inr \<lparr>restored = rest,
                errors = errs @ [\<lparr>err_memoryId = ''unknown'',
                   err_error = ''Failed to get memories from D1: '' @ errorMessage error\<rparr>]\<rparr>,
           w'))"

subsection \<open>Counting the external calls that failed\<close>

text \<open>
  An embedding call fails when the model call throws or answers with no data. The number
  of failed external calls made so far is read off the call logs and the services'
  behaviour.
\<close>

definition embedding_fails :: "world \<Rightarrow> nat \<Rightarrow> bool" where
  "embedding_fails w n = (case AI_replies w n of AiThrows e \<Rightarrow> True | AiData d \<Rightarrow> d = [])"

definition failures :: "world \<Rightarrow> nat" where
  "failures w =
     length (filter (embedding_fails w) [0..<length (AI_log w)])
     + length (filter (\<lambda>n. VECTORIZE_faults w n \<noteq> None) [0..<length (VECTORIZE_log w)])
     + length (filter (\<lambda>n. DB_faults w n \<noteq> None) [0..<DB_calls w])"

text \<open>
  A chunk of three memories: \<open>a\<close> has its vector, the embedding of \<open>b\<close> throws, the
  embedding of \<open>c\<close> succeeds; Vectorize does not fail.
\<close>

definition chunk_world :: world where
  "chunk_world =
     \<lparr>vindex = [\<lparr>v_id = ''a'', v_values = [1], v_namespace = ''u1'',
                 v_metadata = [(''content'', ''A''), (''type'', ''memory'')]\<rparr>],
      memories = [\<lparr>r_id = ''a'', r_userId = ''u1'', r_content = ''A''\<rparr>,
                  \<lparr>r_id = ''b'', r_userId = ''u1'', r_content = ''B''\<rparr>,
                  \<lparr>r_id = ''c'', r_userId = ''u1'', r_content = ''C''\<rparr>],
      AI_replies = (\<lambda>n. if n = 0 then AiThrows (Error ''boom'') else AiData [[2]]), AI_log = [],
      VECTORIZE_faults = (\<lambda>n. None), VECTORIZE_matches = (\<lambda>n. None), VECTORIZE_log = [],
      DB_faults = (\<lambda>n. None), DB_calls = 0,
      uuids = (\<lambda>n. ''u''), uuid_calls = 0,
      clock = (\<lambda>n. ''2025-01-01T00:00:00.000Z''), clock_reads = 0\<rparr>"


definition chunk_world_after :: world where
  "chunk_world_after =
     chunk_world\<lparr>
       vindex := vindex chunk_world @
         [\<lparr>v_id = ''c'', v_values = [2], v_namespace = ''u1'',
           v_metadata = [(''content'', ''C''), (''type'', ''memory'')]\<rparr>],
       AI_log := [''B'', ''C''],
       VECTORIZE_log :=
         [GetByIds [''a'', ''b'', ''c''],
          Upsert [\<lparr>v_id = ''c'', v_values = [2], v_namespace = ''u1'',
                   v_metadata = [(''content'', ''C''), (''type'', ''memory'')]\<rparr>]]\<rparr>"

text \<open>
  Three memories of user \<open>u1\<close>, of which only \<open>a\<close> has its vector; no service fails.
  The second world is the state after one reconcile pass.
\<close>

definition reconcile_world :: world where
  "reconcile_world = chunk_world\<lparr>AI_replies := (\<lambda>n. AiData [[2]])\<rparr>"

definition reconcile_world_after :: world where
  "reconcile_world_after =
     reconcile_world\<lparr>
       vindex := vindex reconcile_world @
         [\<lparr>v_id = ''b'', v_values = [2], v_namespace = ''u1'',
           v_metadata = [(''content'', ''B''), (''type'', ''memory'')]\<rparr>,
          \<lparr>v_id = ''c'', v_values = [2], v_namespace = ''u1'',
           v_metadata = [(''content'', ''C''), (''type'', ''memory'')]\<rparr>],
       AI_log := [''B'', ''C''],
       VECTORIZE_log :=
         [GetByIds [''a'', ''b'', ''c''],
          Upsert [\<lparr>v_id = ''b'', v_values = [2], v_namespace = ''u1'',
                   v_metadata = [(''content'', ''B''), (''type'', ''memory'')]\<rparr>,
                  \<lparr>v_id = ''c'', v_values = [2], v_namespace = ''u1'',
                   v_metadata = [(''content'', ''C''), (''type'', ''memory'')]\<rparr>]],
       DB_calls := 1\<rparr>"

subsection \<open>Reading a reconcile run off the call logs\<close>

text \<open>
  For memories embedded one after the other, the calls numbered from \<open>k\<close>: the ids of
  those whose call fails, and of those whose call succeeds.
\<close>

fun failed_ids :: "world \<Rightarrow> nat \<Rightarrow> row list \<Rightarrow> string list" where
  "failed_ids w k [] = []"
| "failed_ids w k (m # ms) =
     (if embedding_fails w k then [r_id m] else []) @ failed_ids w (Suc k) ms"

fun embedded_ids :: "world \<Rightarrow> nat \<Rightarrow> row list \<Rightarrow> string list" where
  "embedded_ids w k [] = []"
| "embedded_ids w k (m # ms) =
     (if embedding_fails w k then [] else [r_id m]) @ embedded_ids w (Suc k) ms"

text \<open>
  Of a list of Vectorize requests: the id lists of the existence checks, the vectors of
  all batch upserts, and the vectors of the batch upserts that did not throw, the first
  request being call number \<open>n\<close>.
\<close>

fun existence_checks :: "vcall list \<Rightarrow> string list list" where
  "existence_checks [] = []"
| "existence_checks (c # cs) =
     (case c of GetByIds ids \<Rightarrow> [ids] | _ \<Rightarrow> []) @ existence_checks cs"

fun all_upserts :: "vcall list \<Rightarrow> vector_entry list" where
  "all_upserts [] = []"
| "all_upserts (c # cs) = (case c of Upsert vs \<Rightarrow> vs | _ \<Rightarrow> []) @ all_upserts cs"

fun successful_upserts :: "(nat \<Rightarrow> thrown option) \<Rightarrow> nat \<Rightarrow> vcall list \<Rightarrow> vector_entry list" where
  "successful_upserts faults n [] = []"
| "successful_upserts faults n (c # cs) =
     (case c of Upsert vs \<Rightarrow> (if faults n = None then vs else []) | _ \<Rightarrow> [])
     @ successful_upserts faults (Suc n) cs"

definition is_embedding_error :: "error_entry \<Rightarrow> bool" where
  "is_embedding_error e = startsWith (err_error e) ''Failed to generate embedding: ''"

definition index_ids :: "world \<Rightarrow> string set" where
  "index_ids w = v_id ` set (vindex w)"

definition row_ids :: "row list \<Rightarrow> string set" where
  "row_ids rows = r_id ` set rows"

definition error_ids :: "error_entry list \<Rightarrow> string set" where
  "error_ids E = err_memoryId ` set E"

text \<open>
  What the processing of the chunks \<open>cs\<close> does between the worlds \<open>w\<close> and \<open>w'\<close>, in
  terms of the memories \<open>att\<close> it embeds, the Vectorize requests \<open>calls\<close> it issues and
  the error entries \<open>E\<close> it adds.
\<close>

definition chunk_effect ::
  "world \<Rightarrow> world \<Rightarrow> row list list \<Rightarrow> row list \<Rightarrow> vcall list \<Rightarrow> error_entry list \<Rightarrow> bool" where
  "chunk_effect w w' cs att calls E \<longleftrightarrow>
     subseq att (concat cs)
     \<and> row_ids att \<inter> index_ids w = {}
     \<and> row_ids (concat cs) \<subseteq> index_ids w \<union> row_ids att \<union> error_ids E
     \<and> index_ids w \<subseteq> index_ids w'
     \<and> index_ids w' \<subseteq> index_ids w \<union> row_ids att
     \<and> AI_log w' = AI_log w @ map r_content att
     \<and> map err_memoryId (filter is_embedding_error E) = failed_ids w (length (AI_log w)) att
     \<and> VECTORIZE_log w' = VECTORIZE_log w @ calls
     \<and> existence_checks calls = map (map r_id) cs
     \<and> map v_id (all_upserts calls) = embedded_ids w (length (AI_log w)) att
     \<and> AI_replies w' = AI_replies w
     \<and> VECTORIZE_faults w' = VECTORIZE_faults w"

section \<open>remember\_artifact: parsing a document into sections\<close>

text \<open>
  White space as \<open>String.prototype.trim\<close> and the regular expression class \<open>\s\<close>
  see it, among the code units below 256: tab, line feed, vertical tab, form feed,
  carriage return, space and no-break space.
\<close>

definition is_space :: "char \<Rightarrow> bool" where
  "is_space c \<longleftrightarrow> (of_char c :: nat) \<in> {9, 10, 11, 12, 13, 32, 160}"

definition trim :: "string \<Rightarrow> string" where
  "trim s = rev (dropWhile is_space (rev (dropWhile is_space s)))"

text \<open>
  \<open>s.split(sep)\<close> for a non-empty separator string: the pieces between the occurrences
  of \<open>sep\<close>, found from left to right without overlap. \<open>cur\<close> is the piece being read.
\<close>

function split_from :: "string \<Rightarrow> string \<Rightarrow> string \<Rightarrow> string list" where
  "split_from sep cur [] = [cur]"
| "split_from sep cur (c # cs) =
     (if sep \<noteq> [] \<and> startsWith (c # cs) sep
      then cur # split_from sep [] (drop (length sep) (c # cs))
      else split_from sep (cur @ [c]) cs)"
  by pat_completeness auto
termination
  by (relation "measure (\<lambda>(sep, cur, s). length s)") auto

definition split_on :: "string \<Rightarrow> string \<Rightarrow> string list" where
  "split_on sep s = split_from sep [] s"

text \<open>\<open>parts.join(sep)\<close>\<close>

fun join :: "string \<Rightarrow> string list \<Rightarrow> string" where
  "join sep [] = []"
| "join sep [p] = p"
| "join sep (p # q # ps) = p @ sep @ join sep (q # ps)"

text \<open>The decimal numeral of a number, as a template literal renders it.\<close>

fun decimal :: "nat \<Rightarrow> string" where
  "decimal n =
     (if n < 10 then [''0123456789'' ! n]
      else decimal (n div 10) @ [''0123456789'' ! (n mod 10)])"

declare decimal.simps [simp del]

text \<open>
  The text at a position matches \<open>#{1,3}\s\<close>: one, two or three \<open>#\<close> and then a
  white-space character.
\<close>

definition header_at :: "string \<Rightarrow> bool" where
  "header_at s =
     list_ex (\<lambda>k. take k s = replicate k CHR ''#''
                   \<and> (case drop k s of [] \<Rightarrow> False | c # cs \<Rightarrow> is_space c))
       [1, 2, 3]"

text \<open>
  \<open>content.split(/(?=^#{1,3}\s)/m)\<close>: the text is cut before every position other than
  the first that starts a line (it follows a line feed or a carriage return) and where
  the header pattern matches. \<open>cur\<close> is the piece being read.
\<close>

definition is_line_terminator :: "char \<Rightarrow> bool" where
  "is_line_terminator c \<longleftrightarrow> c = CHR 0x0A \<or> c = CHR 0x0D"

fun split_headers :: "string \<Rightarrow> string \<Rightarrow> string list" where
  "split_headers cur [] = [cur]"
| "split_headers cur (c # cs) =
     (if cur \<noteq> [] \<and> is_line_terminator (last cur) \<and> header_at (c # cs)
      then cur # split_headers [c] cs
      else split_headers (cur @ [c]) cs)"

definition headerSections :: "string \<Rightarrow> string list" where
  "headerSections content = filter (\<lambda>section. trim section \<noteq> []) (split_headers [] content)"

text \<open>
  \<open>lines[0].replace(/^#{1,3}\s*/, '')\<close>: up to three leading \<open>#\<close> and the white space
  after them are removed; a line that does not start with \<open>#\<close> is left as it is.
\<close>

definition strip_header_marks :: "string \<Rightarrow> string" where
  "strip_header_marks line =
     (let n = length (takeWhile (\<lambda>c. c = CHR ''#'') line)
      in if n = 0 then line else dropWhile is_space (drop (min n 3) line))"

record parsed_section =
  ps_title :: string
  ps_content :: string
  ps_type :: string

text \<open>The \<open>forEach\<close> over \<open>headerSections\<close>, from index \<open>index\<close> on.\<close>

fun header_sections :: "nat \<Rightarrow> string list \<Rightarrow> parsed_section list" where
  "header_sections index [] = []"
| "header_sections index (section # rest) =
     (let lines = split_on [CHR 0x0A] (trim section);
          header = trim (strip_header_marks (hd lines));
          content = trim (join [CHR 0x0A] (tl lines))
      in (if content \<noteq> []
          then [\<lparr>ps_title = (if header \<noteq> [] then header else ''Section '' @ decimal (index + 1)),
                 ps_content = content, ps_type = ''section''\<rparr>]
          else [])
         @ header_sections (index + 1) rest)"

text \<open>
  A PRD pattern \<open>/(a1|a2|...)[\s\S]*?(?=\n\s*(?:k1|k2|...)|$)/i\<close>. The match starts at the
  first position where one of the alternatives stands, letter case ignored, and runs to
  the first later position that is the end of the text or a line feed followed by
  white space and one of the stop words.
\<close>

definition starts_ci :: "string \<Rightarrow> string \<Rightarrow> bool" where
  "starts_ci s word = startsWith (toLowerCase s) word"

definition stop_here :: "string list \<Rightarrow> string \<Rightarrow> bool" where
  "stop_here stops s =
     (case s of
        [] \<Rightarrow> True
      | c # cs \<Rightarrow> c = CHR 0x0A \<and> list_ex (starts_ci (dropWhile is_space cs)) stops)"

fun lazy_until :: "string list \<Rightarrow> string \<Rightarrow> string" where
  "lazy_until stops [] = []"
| "lazy_until stops (c # cs) = (if stop_here stops (c # cs) then [] else c # lazy_until stops cs)"

fun pattern_match :: "string list \<Rightarrow> string list \<Rightarrow> string \<Rightarrow> string option" where
  "pattern_match alts stops [] = None"
| "pattern_match alts stops (c # cs) =
     (case find (starts_ci (c # cs)) alts of
        Some a \<Rightarrow> Some (take (length a) (c # cs) @ lazy_until stops (drop (length a) (c # cs)))
      | None \<Rightarrow> pattern_match alts stops cs)"

definition prdPatterns :: "(string list \<times> string list \<times> string) list" where
  "prdPatterns =
     [([''executive summary'', ''overview'', ''summary''],
       [''problem'', ''solution'', ''requirements'', ''success'', ''metrics'', ''timeline''],
       ''Executive Summary''),
      ([''problem statement'', ''problem'', ''challenge''],
       [''solution'', ''requirements'', ''success'', ''metrics'', ''timeline''],
       ''Problem Statement''),
      ([''solution'', ''approach'', ''proposal''],
       [''requirements'', ''success'', ''metrics'', ''timeline''],
       ''Solution Approach''),
      ([''requirements'', ''specs'', ''specifications''],
       [''success'', ''metrics'', ''timeline''],
       ''Requirements''),
      ([''success criteria'', ''success metrics'', ''metrics'', ''kpis''],
       [''timeline''],
       ''Success Criteria'')]"

definition prd_sections :: "string \<Rightarrow> parsed_section list" where
  "prd_sections content =
     concat (map (\<lambda>(alts, stops, title).
                    case pattern_match alts stops content of
                      Some m \<Rightarrow> [\<lparr>ps_title = title, ps_content = trim m, ps_type = ''section''\<rparr>]
                    | None \<Rightarrow> [])
               prdPatterns)"

text \<open>The \<open>forEach\<close> over the kept paragraphs, from index \<open>index\<close> on.\<close>

fun paragraph_sections :: "nat \<Rightarrow> string list \<Rightarrow> parsed_section list" where
  "paragraph_sections index [] = []"
| "paragraph_sections index (paragraph # rest) =
     \<lparr>ps_title = ''Part '' @ decimal (index + 1), ps_content = trim paragraph,
      ps_type = ''chunk''\<rparr> # paragraph_sections (index + 1) rest"

definition parseDocumentSections :: "string \<Rightarrow> string \<Rightarrow> parsed_section list" where
  "parseDocumentSections content docType =
     (let sections =
            (if length (headerSections content) > 1
             then header_sections 0 (headerSections content)
             else
               (let sections1 = (if docType = ''PRD'' then prd_sections content else [])
                in if length sections1 = 0
                   then paragraph_sections 0
                          (filter (\<lambda>p. length (trim p) > 50)
                             (split_on [CHR 0x0A, CHR 0x0A] content))
                   else sections1))
      in if length sections > 0 then sections
         else [\<lparr>ps_title = ''Complete Document'', ps_content = content, ps_type = ''full''\<rparr>])"


text \<open>
  Two documents for the fallback ladder: a header line of 70 characters followed by a
  second header, neither with a body; and a paragraph of 45 letters padded with 10
  spaces, followed by a paragraph of 80 letters.
\<close>

definition headers_without_bodies :: string where
  "headers_without_bodies =
     ''# xxxxxxxxxxxxxxxxxxxxxxxxxxxxxxxxxxxxxxxxxxxxxxxxxxxxxxxxxxxxxxxxxxxx'' @ [CHR 0x0A] @ ''# B''"

definition padded_paragraphs :: string where
  "padded_paragraphs =
     ''xxxxxxxxxxxxxxxxxxxxxxxxxxxxxxxxxxxxxxxxxxxxx          '' @ [CHR 0x0A, CHR 0x0A] @
     ''yyyyyyyyyyyyyyyyyyyyyyyyyyyyyyyyyyyyyyyyyyyyyyyyyyyyyyyyyyyyyyyyyyyyyyyyyyyyyyyy''"

text \<open>Plain prose: two paragraphs of 80 characters, no header and no keyword.\<close>

definition two_paragraphs :: string where
  "two_paragraphs =
     ''aaaaaaaaaaaaaaaaaaaaaaaaaaaaaaaaaaaaaaaaaaaaaaaaaaaaaaaaaaaaaaaaaaaaaaaaaaaaaaaa'' @
     [CHR 0x0A, CHR 0x0A] @
     ''bbbbbbbbbbbbbbbbbbbbbbbbbbbbbbbbbbbbbbbbbbbbbbbbbbbbbbbbbbbbbbbbbbbbbbbbbbbbbbbb''"



section \<open>The tools add\_to\_memory and remember\_artifact\<close>

text \<open>\<open>value || fallback\<close> for an optional string: \<open>undefined\<close> and the empty string are falsy.\<close>

definition or_else :: "string option \<Rightarrow> string \<Rightarrow> string" where
  "or_else v d = (case v of None \<Rightarrow> d | Some s \<Rightarrow> if s = [] then d else s)"

definition new_Date_toISOString :: "world \<Rightarrow> string \<times> world" where
  "new_Date_toISOString w = (clock w (clock_reads w), w\<lparr>clock_reads := Suc (clock_reads w)\<rparr>)"

text \<open>
  The tool's \<open>try\<close> around \<open>storeMemory\<close> and \<open>storeMemoryInD1\<close>; the result is the
  text of the reply.
\<close>

definition add_to_memory :: "string \<Rightarrow> string \<Rightarrow> world \<Rightarrow> string \<times> world" where
  "add_to_memory thingToRemember userId w =
     (case storeMemory thingToRemember userId w of
        (Inl error, w1) \<Rightarrow> (''Failed to remember: '' @ String_of error, w1)
      | (Inr memoryId, w1) \<Rightarrow>
          (case storeMemoryInD1 thingToRemember userId (Some memoryId) w1 of
             (Inl error, w2) \<Rightarrow> (''Failed to remember: '' @ String_of error, w2)
           | (Inr i, w2) \<Rightarrow> (''Remembered: '' @ thingToRemember, w2)))"

definition tags_text :: "string list option \<Rightarrow> string \<Rightarrow> string" where
  "tags_text tags docType =
     (case tags of
        Some ts \<Rightarrow> join '', '' ts
      | None \<Rightarrow> ''document, '' @ toLowerCase docType)"

definition generateMetadata ::
  "parsed_section \<Rightarrow> string \<Rightarrow> string option \<Rightarrow> string option \<Rightarrow> string list option
     \<Rightarrow> world \<Rightarrow> string \<times> world" where
  "generateMetadata section docType projectName priority tags w =
     (case new_Date_toISOString w of
        (timestamp, w') \<Rightarrow>
          (''PROJECT: '' @ or_else projectName ''Unknown'' @ [CHR 0x0A] @
           ''DOCUMENT_TYPE: '' @ docType @ [CHR 0x0A] @
           ''SECTION: '' @ ps_title section @ [CHR 0x0A] @
           ''PRIORITY: '' @ or_else priority ''Medium'' @ [CHR 0x0A] @
           ''TAGS: '' @ tags_text tags docType @ [CHR 0x0A] @
           ''TIMESTAMP: '' @ timestamp @ [CHR 0x0A] @
           ''SECTION_TYPE: '' @ ps_type section @ [CHR 0x0A] @
           [CHR 0x0A] @
           ps_content section,
           w'))"

record stored_section =
  st_title :: string
  st_type :: string
  st_memoryId :: string

text \<open>
  The loop over the sections. The body of its \<open>try\<close> formats the section, stores the
  vector, then the row; a throw anywhere in it is logged and the loop goes on.
\<close>

fun store_sections ::
  "string \<Rightarrow> string option \<Rightarrow> string option \<Rightarrow> string list option \<Rightarrow> string
     \<Rightarrow> parsed_section list \<Rightarrow> stored_section list \<Rightarrow> nat \<Rightarrow> world
     \<Rightarrow> stored_section list \<times> nat \<times> world" where
  "store_sections docType projectName priority tags userId [] storedSections successCount w =
     (storedSections, successCount, w)"
| "store_sections docType projectName priority tags userId (section # rest)
       storedSections successCount w =
     (case generateMetadata section docType projectName priority tags w of
        (formattedContent, w1) \<Rightarrow>
          (case storeMemory formattedContent userId w1 of
             (Inl sectionError, w2) \<Rightarrow>
               store_sections docType projectName priority tags userId rest
                 storedSections successCount w2
           | (Inr memoryId, w2) \<Rightarrow>
               (case storeMemoryInD1 formattedContent userId (Some memoryId) w2 of
                  (Inl sectionError, w3) \<Rightarrow>
                    store_sections docType projectName priority tags userId rest
                      storedSections successCount w3
                | (Inr i, w3) \<Rightarrow>
                    store_sections docType projectName priority tags userId rest
                      (storedSections @
                         [\<lparr>st_title = ps_title section, st_type = ps_type section,
                           st_memoryId = memoryId\<rparr>])
                      (successCount + 1) w3)))"

definition masterContent ::
  "string \<Rightarrow> string option \<Rightarrow> string option \<Rightarrow> string list option
     \<Rightarrow> parsed_section list \<Rightarrow> stored_section list \<Rightarrow> world \<Rightarrow> string \<times> world" where
  "masterContent docType projectName priority tags sections storedSections w =
     (case new_Date_toISOString w of
        (timestamp, w') \<Rightarrow>
          (''PROJECT: '' @ or_else projectName ''Unknown'' @ [CHR 0x0A] @
           ''DOCUMENT_TYPE: '' @ docType @ [CHR 0x0A] @
           ''SECTION: Master Index'' @ [CHR 0x0A] @
           ''PRIORITY: '' @ or_else priority ''Medium'' @ [CHR 0x0A] @
           ''TAGS: '' @ tags_text tags docType @ '', master-index'' @ [CHR 0x0A] @
           ''TIMESTAMP: '' @ timestamp @ [CHR 0x0A] @
           ''SECTION_COUNT: '' @ decimal (length sections) @ [CHR 0x0A] @
           [CHR 0x0A] @
           ''DOCUMENT OVERVIEW:'' @ [CHR 0x0A] @
           ''This document has been stored in '' @ decimal (length sections) @ '' sections: '' @
             join '', '' (map ps_title sections) @ [CHR 0x0A] @
           [CHR 0x0A] @
           ''STORED SECTIONS:'' @ [CHR 0x0A] @
           join [CHR 0x0A]
             (map (\<lambda>s. ''- '' @ st_title s @ '' ('' @ st_type s @ ''): '' @ st_memoryId s)
                storedSections),
           w'))"

text \<open>The \<open>try\<close> that stores the master index; a throw is logged.\<close>

definition store_master ::
  "string \<Rightarrow> string option \<Rightarrow> string option \<Rightarrow> string list option \<Rightarrow> string
     \<Rightarrow> parsed_section list \<Rightarrow> stored_section list \<Rightarrow> world \<Rightarrow> world" where
  "store_master docType projectName priority tags userId sections storedSections w =
     (case masterContent docType projectName priority tags sections storedSections w of
        (content, w1) \<Rightarrow>
          (case storeMemory content userId w1 of
             (Inl masterError, w2) \<Rightarrow> w2
           | (Inr masterMemoryId, w2) \<Rightarrow>
               (case storeMemoryInD1 content userId (Some masterMemoryId) w2 of
                  (Inl masterError, w3) \<Rightarrow> w3
                | (Inr i, w3) \<Rightarrow> w3)))"

text \<open>
  The reply of remember\_artifact is a text built from the document type, the number of
  sections stored, the number of sections and the titles stored; it is returned here as
  these values.
\<close>

record artifact_reply =
  ar_docType :: string
  ar_successCount :: nat
  ar_total :: nat
  ar_stored :: "stored_section list"

definition remember_artifact ::
  "string \<Rightarrow> string option \<Rightarrow> string option \<Rightarrow> string option \<Rightarrow> string list option
     \<Rightarrow> string \<Rightarrow> world \<Rightarrow> artifact_reply \<times> world" where
  "remember_artifact thingToRemember documentType projectName priority tags userId w =
     (let docType = finalDocType documentType thingToRemember;
          sections = parseDocumentSections thingToRemember docType
      in case store_sections docType projectName priority tags userId sections [] 0 w of
           (storedSections, successCount, w1) \<Rightarrow>
             (\<lparr>ar_docType = docType, ar_successCount = successCount,
               ar_total = length sections, ar_stored = storedSections\<rparr>,
              store_master docType projectName priority tags userId sections
                storedSections w1))"

subsection \<open>Sequences of store operations\<close>

datatype store_op =
    AddToMemory string string
  | RememberArtifact string "string option" "string option" "string option"
      "string list option" string

fun run_op :: "store_op \<Rightarrow> world \<Rightarrow> world" where
  "run_op (AddToMemory thingToRemember userId) w = snd (add_to_memory thingToRemember userId w)"
| "run_op (RememberArtifact thingToRemember documentType projectName priority tags userId) w =
     snd (remember_artifact thingToRemember documentType projectName priority tags userId w)"

fun run_ops :: "store_op list \<Rightarrow> world \<Rightarrow> world" where
  "run_ops [] w = w"
| "run_ops (op # ops) w = run_ops ops (run_op op w)"

text \<open>Empty stores, and a D1 whose every statement throws.\<close>

definition db_down_world :: world where
  "db_down_world = fresh_world\<lparr>DB_faults := (\<lambda>n. Some (Error ''D1_ERROR''))\<rparr>"

text \<open>Empty stores, distinct ids, and a D1 whose second statement throws.\<close>

definition flaky_world :: world where
  "flaky_world =
     fresh_world\<lparr>DB_faults := (\<lambda>n. if n = 1 then Some (Error ''D1_ERROR'') else None),
                 uuids := (\<lambda>n. ''id-'' @ decimal n)\<rparr>"

section \<open>Facts about strings\<close>

lemma startsWith_iff: "startsWith s p \<longleftrightarrow> (\<exists>post. s = p @ post)"
  by (induction s p rule: startsWith.induct) auto

lemma str_includes_iff: "str_includes s sub \<longleftrightarrow> (\<exists>pre post. s = pre @ sub @ post)"
proof (induction s)
  case Nil
  then show ?case by simp
next
  case (Cons c cs)
  show ?case
  proof
    assume "str_includes (c # cs) sub"
    then consider "startsWith (c # cs) sub" | "str_includes cs sub" by auto
    then show "\<exists>pre post. c # cs = pre @ sub @ post"
    proof cases
      case 1
      then obtain post where "c # cs = sub @ post" by (auto simp: startsWith_iff)
      then have "c # cs = [] @ sub @ post" by simp
      then show ?thesis by blast
    next
      case 2
      then obtain pre post where "cs = pre @ sub @ post" using Cons.IH by auto
      then have "c # cs = (c # pre) @ sub @ post" by simp
      then show ?thesis by blast
    qed
  next
    assume "\<exists>pre post. c # cs = pre @ sub @ post"
    then obtain pre post where eq: "c # cs = pre @ sub @ post" by auto
    show "str_includes (c # cs) sub"
    proof (cases pre)
      case Nil
      with eq have "startsWith (c # cs) sub" by (auto simp: startsWith_iff)
      then show ?thesis by simp
    next
      case (Cons a pre')
      with eq have "cs = pre' @ sub @ post" by simp
      then have "str_includes cs sub" using Cons.IH by auto
      then show ?thesis by simp
    qed
  qed
qed

lemma str_includes_toLowerCase:
  assumes "map toLowerChar keyword = keyword"
  shows "str_includes (toLowerCase text) keyword \<longleftrightarrow> present_ci keyword text"
proof
  assume "str_includes (toLowerCase text) keyword"
  then obtain pre post where eq: "map toLowerChar text = pre @ keyword @ post"
    by (auto simp: str_includes_iff toLowerCase_def)
  from map_eq_append_conv [THEN iffD1, OF eq]
  obtain a r where a: "text = a @ r" and r: "keyword @ post = map toLowerChar r"
    by blast
  from map_eq_append_conv [THEN iffD1, OF r [symmetric]]
  obtain m p where m: "r = m @ p" and k: "keyword = map toLowerChar m"
    by blast
  from a m have "text = a @ m @ p" by simp
  moreover from k assms have "map toLowerChar m = map toLowerChar keyword" by simp
  ultimately show "present_ci keyword text"
    unfolding present_ci_def by blast
next
  assume "present_ci keyword text"
  then obtain pre mid post where "text = pre @ mid @ post"
    "map toLowerChar mid = keyword"
    using assms by (auto simp: present_ci_def)
  then have "toLowerCase text = map toLowerChar pre @ keyword @ map toLowerChar post"
    by (simp add: toLowerCase_def)
  then show "str_includes (toLowerCase text) keyword"
    unfolding str_includes_iff by blast
qed

lemma keywords_lower_case:
  "map toLowerChar ''product requirements'' = ''product requirements''"
  "map toLowerChar ''user stories'' = ''user stories''"
  "map toLowerChar ''acceptance criteria'' = ''acceptance criteria''"
  "map toLowerChar ''technical specification'' = ''technical specification''"
  "map toLowerChar ''architecture'' = ''architecture''"
  "map toLowerChar ''api reference'' = ''api reference''"
  "map toLowerChar ''feature request'' = ''feature request''"
  "map toLowerChar ''user story'' = ''user story''"
  "map toLowerChar ''journal'' = ''journal''"
  by (simp_all add: toLowerChar_def)

lemmas keyword_present =
  keywords_lower_case [THEN str_includes_toLowerCase]

subsection \<open>Claim C7\<close>

text \<open>
  C7. With \<open>documentType\<close> omitted, the document type is the result of the first rule, in
  the listed order, one of whose keywords is present in the raw text case-insensitively:
  PRD, then TechnicalSpec, then FeatureRequest, then Journal, and Documentation when no
  rule matches.
\<close>

theorem C7_type_inference_first_rule_wins:
  "finalDocType None rawText = first_matching_rule rawText"
  by (simp add: finalDocType_def detectDocumentType_def first_matching_rule_def Let_def
      inference_rules_def rule_matches_def keyword_present)

section \<open>Semantic retrieval\<close>

lemma set_insert_by: "set (insert_by cmp x ys) = insert x (set ys)"
  by (induction ys) auto

lemma set_array_sort: "set (array_sort cmp xs) = set xs"
  by (induction xs) (auto simp: array_sort_def set_insert_by)

lemma score_match_to_memory: "mem_score (match_to_memory m) = match_score m"
  by (simp add: match_to_memory_def)

text \<open>
  C2. Every element of the list returned by a search has a score strictly greater than the
  threshold 0.5; a match scoring at or below the threshold is never returned. With the
  synthetic scores 0.3, 0.5, 0.51 and 0.9 only the matches scoring 0.51 and 0.9 come back.
\<close>

theorem C2_search_threshold:
  assumes "searchMemories query userId metadataFilters w = (Inr ms, w')"
  shows "\<forall>m \<in> set ms. mem_score m > MINIMUM_SIMILARITY_SCORE"
  using assms
  by (auto simp: searchMemories_def Let_def set_array_sort score_match_to_memory
      split: prod.splits sum.splits option.splits if_splits)

lemma search_world_search:
  "searchMemories ''q'' ''u1'' None search_world =
     (Inr [\<lparr>mem_content = ''Missing memory content (ID: d)'', mem_score = 9 / 10, mem_id = ''d''\<rparr>,
           \<lparr>mem_content = ''C'', mem_score = 51 / 100, mem_id = ''c''\<rparr>],
      search_world\<lparr>AI_log := [''q''],
         VECTORIZE_log := [Query [1] \<lparr>q_namespace = ''u1'', q_topK = 10, q_filter = None\<rparr>]\<rparr>)"
  by (simp add: searchMemories_def search_world_def generateEmbeddings_def AI_run_def VECTORIZE_query_def
     Let_def MINIMUM_SIMILARITY_SCORE_def array_sort_def match_to_memory_def sortCompare_def)

theorem C2_search_threshold_witness:
  "searchMemories ''q'' ''u1'' None search_world =
     (Inr [\<lparr>mem_content = ''Missing memory content (ID: d)'', mem_score = 9 / 10, mem_id = ''d''\<rparr>,
           \<lparr>mem_content = ''C'', mem_score = 51 / 100, mem_id = ''c''\<rparr>],
      search_world\<lparr>AI_log := [''q''],
         VECTORIZE_log := [Query [1] \<lparr>q_namespace = ''u1'', q_topK = 10, q_filter = None\<rparr>]\<rparr>)
   \<and> list_all (\<lambda>m. mem_score m > MINIMUM_SIMILARITY_SCORE)
         [\<lparr>mem_content = ''Missing memory content (ID: d)'', mem_score = 9 / 10, mem_id = ''d''\<rparr>,
          \<lparr>mem_content = ''C'', mem_score = 51 / 100, mem_id = ''c''\<rparr>]"
  using C2_search_threshold [OF search_world_search] search_world_search
  unfolding list_all_iff by (intro conjI)

section \<open>Deletion\<close>

text \<open>
  C4. The deletion sent to the Vector Index names the id only. The request and the
  resulting state do not depend on the namespace argument, and when the call succeeds the
  vector with that id is gone whatever namespace it was stored under.
\<close>

theorem C4_vector_delete_ignores_namespace:
  "deleteVectorById memoryId userId w = deleteVectorById memoryId userId' w
   \<and> VECTORIZE_log (snd (deleteVectorById memoryId userId w))
       = VECTORIZE_log w @ [DeleteByIds [memoryId]]
   \<and> (VECTORIZE_faults w (length (VECTORIZE_log w)) = None \<longrightarrow>
        fst (deleteVectorById memoryId userId w) = Inr ()
        \<and> memoryId \<notin> set (map v_id (vindex (snd (deleteVectorById memoryId userId w)))))"
  by (auto simp: deleteVectorById_def VECTORIZE_deleteByIds_def Let_def split: option.splits)

theorem C4_vector_delete_ignores_namespace_witness:
  "map (\<lambda>v. (v_id v, v_namespace v)) (vindex delete_world) = [(''m1'', ''bob'')]
   \<and> VECTORIZE_faults delete_world (length (VECTORIZE_log delete_world)) = None
   \<and> fst (deleteVectorById ''m1'' ''alice'' delete_world) = Inr ()
   \<and> ''m1'' \<notin> set (map v_id (vindex (snd (deleteVectorById ''m1'' ''alice'' delete_world))))
   \<and> VECTORIZE_log (snd (deleteVectorById ''m1'' ''alice'' delete_world)) = [DeleteByIds [''m1'']]"
proof -
  have f: "VECTORIZE_faults delete_world (length (VECTORIZE_log delete_world)) = None"
    by (simp add: delete_world_def)
  have l: "VECTORIZE_log delete_world = []" by (simp add: delete_world_def)
  have n: "map (\<lambda>v. (v_id v, v_namespace v)) (vindex delete_world) = [(''m1'', ''bob'')]"
    by (simp add: delete_world_def)
  from C4_vector_delete_ignores_namespace [of "''m1''" "''alice''" delete_world "''alice''"] f l n
  show ?thesis by simp
qed

section \<open>Stored rows\<close>

lemma add_to_memory_ext_drops_metadata:
  "add_to_memory_ext thingToRemember title tags documentType projectName userId w
     = add_to_memory_ext thingToRemember None None None None userId w"
  by (simp add: add_to_memory_ext_def call_storeMemoryInD1_def split: prod.splits sum.splits)

text \<open>
  C3 asks that the row inserted by a store carries the supplied metadata. At the input
  below the tool is given a title, a project name and tags; the row it inserts holds the
  id, the user id and the content, and the stores end up exactly as after the same call
  without any metadata.
\<close>

theorem C3_row_has_no_metadata:
  "memories (snd (add_to_memory_ext ''User prefers dark mode'' (Some ''Preferences'')
                    (Some [''ui'']) None (Some ''app'') ''u1'' fresh_world))
     = [\<lparr>r_id = ''id-1'', r_userId = ''u1'', r_content = ''User prefers dark mode''\<rparr>]
   \<and> add_to_memory_ext ''User prefers dark mode'' (Some ''Preferences'')
         (Some [''ui'']) None (Some ''app'') ''u1'' fresh_world
       = add_to_memory_ext ''User prefers dark mode'' None None None None ''u1'' fresh_world"
  by (simp add: add_to_memory_ext_def call_storeMemoryInD1_def storeMemoryInD1_def
      DB_insert_def storeMemory_def uuidv4_def generateEmbeddings_def AI_run_def
      VECTORIZE_upsert_def fresh_world_def Let_def)

section \<open>Order of reconstructed sections\<close>

text \<open>
  C9 asks that every section whose title is not in the priority table sorts last, with
  priority 999. A section titled \<open>constructor\<close> is not in the table, yet the lookup
  \<open>order['constructor']\<close> finds the function inherited from \<open>Object.prototype\<close>, the
  default 999 is not taken, and the comparison with any other priority is NaN, which the
  sort reads as equal. Retrieved before a section titled Overview (priority 2), it stays
  before it; a section titled Zebra in the same place is moved behind.
\<close>

theorem C9_inherited_key_not_sorted_last:
  "map sectionName (sort_sections localeCompare [titled ''constructor'', titled ''Overview''])
     = [''constructor'', ''Overview'']
   \<and> map sectionName (sort_sections localeCompare [titled ''Zebra'', titled ''Overview''])
     = [''Overview'', ''Zebra'']"
  by (simp add: sort_sections_def array_sort_def compare_sections_def get_property_def
      or_default_def js_minus_def order_table_def Object_prototype_keys_def titled_def
      sortCompare_def Let_def)

section \<open>Reconciliation\<close>

lemma chunks_of_simps [simp]:
  "chunks_of [] = []"
  "xs \<noteq> [] \<Longrightarrow> chunks_of xs = take CHUNK_SIZE xs # chunks_of (drop CHUNK_SIZE xs)"
  by simp_all

declare chunks_of.simps [simp del]

lemma concat_chunks_of: "concat (chunks_of xs) = xs"
  by (induction xs rule: chunks_of.induct) (case_tac "xs = []", auto)

lemma chunks_of_nonempty: "c \<in> set (chunks_of xs) \<Longrightarrow> c \<noteq> []"
  by (induction xs rule: chunks_of.induct) (case_tac "xs = []", auto simp: CHUNK_SIZE_def)

lemma chunks_of_length: "c \<in> set (chunks_of xs) \<Longrightarrow> length c \<le> CHUNK_SIZE"
  by (induction xs rule: chunks_of.induct) (case_tac "xs = []", auto)

subsection \<open>Every failure leaves an error entry\<close>

lemma embedding_fails_update [simp]:
  "embedding_fails (w\<lparr>AI_log := a\<rparr>) = embedding_fails w"
  "embedding_fails (w\<lparr>VECTORIZE_log := l\<rparr>) = embedding_fails w"
  "embedding_fails (w\<lparr>vindex := v\<rparr>) = embedding_fails w"
  "embedding_fails (w\<lparr>DB_calls := c\<rparr>) = embedding_fails w"
  "embedding_fails (w\<lparr>memories := m\<rparr>) = embedding_fails w"
  "embedding_fails (w\<lparr>uuid_calls := k\<rparr>) = embedding_fails w"
  by (rule ext, simp add: embedding_fails_def)+

lemma generateEmbeddings_failures:
  assumes "generateEmbeddings text w = (r, w')"
  shows "failures w' = failures w + (if isl r then 1 else 0)"
  using assms
  by (auto simp: generateEmbeddings_def AI_run_def Let_def failures_def embedding_fails_def
      split: ai_reply.splits list.splits)

lemma getByIds_failures:
  assumes "VECTORIZE_getByIds ids w = (r, w')"
  shows "failures w' = failures w + (if isl r then 1 else 0)"
  using assms
  by (auto simp: VECTORIZE_getByIds_def Let_def failures_def embedding_fails_def
      split: option.splits)

lemma upsert_failures:
  assumes "VECTORIZE_upsert vs w = (r, w')"
  shows "failures w' = failures w + (if isl r then 1 else 0)"
  using assms
  by (auto simp: VECTORIZE_upsert_def Let_def failures_def embedding_fails_def
      split: option.splits)

lemma getAllMemoriesFromD1_failures:
  assumes "getAllMemoriesFromD1 userId w = (r, w')"
  shows "failures w' = failures w + (if isl r then 1 else 0)"
  using assms
  by (auto simp: getAllMemoriesFromD1_def Let_def failures_def embedding_fails_def
      split: option.splits)

lemma embed_missing_failures:
  assumes "embed_missing userId ms vs errs w = (vs', errs', w')"
  shows "failures w' + length errs = failures w + length errs'"
  using assms
proof (induction ms arbitrary: vs errs w)
  case Nil
  then show ?case by simp
next
  case (Cons m ms)
  obtain r w1 where g: "generateEmbeddings (r_content m) w = (r, w1)"
    by (cases "generateEmbeddings (r_content m) w")
  show ?case
  proof (cases r)
    case (Inl e)
    with g Cons.prems obtain errs1 where
      "embed_missing userId ms vs errs1 w1 = (vs', errs', w')" "length errs1 = Suc (length errs)"
      by auto
    from Cons.IH [OF this(1)] this(2) generateEmbeddings_failures [OF g] Inl
    show ?thesis by simp
  next
    case (Inr v)
    with g Cons.prems obtain vs1 where
      "embed_missing userId ms vs1 errs w1 = (vs', errs', w')"
      by auto
    from Cons.IH [OF this] generateEmbeddings_failures [OF g] Inr
    show ?thesis by simp
  qed
qed

lemma chunk_try_cases:
  assumes "chunk_try userId chunk (rest, errs, w) = (r, rest', errs', w')"
  obtains
    (check_failed) e where
      "VECTORIZE_getByIds (map r_id chunk) w = (Inl e, w')"
      "r = Inl e" "rest' = rest" "errs' = errs"
  | (none_missing) existing where
      "VECTORIZE_getByIds (map r_id chunk) w = (Inr existing, w')"
      "missing_memories existing chunk = []"
      "r = Inr ()" "rest' = rest" "errs' = errs"
  | (none_embedded) existing w1 where
      "VECTORIZE_getByIds (map r_id chunk) w = (Inr existing, w1)"
      "missing_memories existing chunk \<noteq> []"
      "embed_missing userId (missing_memories existing chunk) [] errs w1 = ([], errs', w')"
      "r = Inr ()" "rest' = rest"
  | (upsert_failed) existing w1 vs w2 e where
      "VECTORIZE_getByIds (map r_id chunk) w = (Inr existing, w1)"
      "missing_memories existing chunk \<noteq> []"
      "embed_missing userId (missing_memories existing chunk) [] errs w1 = (vs, errs', w2)"
      "vs \<noteq> []" "VECTORIZE_upsert vs w2 = (Inl e, w')"
      "r = Inl e" "rest' = rest"
  | (upserted) existing w1 vs w2 where
      "VECTORIZE_getByIds (map r_id chunk) w = (Inr existing, w1)"
      "missing_memories existing chunk \<noteq> []"
      "embed_missing userId (missing_memories existing chunk) [] errs w1 = (vs, errs', w2)"
      "vs \<noteq> []" "VECTORIZE_upsert vs w2 = (Inr (), w')"
      "r = Inr ()" "rest' = rest + length vs"
proof -
  obtain g w1 where g: "VECTORIZE_getByIds (map r_id chunk) w = (g, w1)"
    by (cases "VECTORIZE_getByIds (map r_id chunk) w")
  show thesis
  proof (cases g)
    case (Inl e)
    with g assms have "r = Inl e \<and> rest' = rest \<and> errs' = errs \<and> w' = w1"
      by (simp add: chunk_try_def)
    with g Inl check_failed show thesis by simp
  next
    case (Inr existing)
    show thesis
    proof (cases "missing_memories existing chunk = []")
      case True
      with g Inr assms have "r = Inr () \<and> rest' = rest \<and> errs' = errs \<and> w' = w1"
        by (simp add: chunk_try_def)
      with g Inr True none_missing show thesis by simp
    next
      case False
      obtain vs errs2 w2 where
        e: "embed_missing userId (missing_memories existing chunk) [] errs w1 = (vs, errs2, w2)"
        by (cases "embed_missing userId (missing_memories existing chunk) [] errs w1") auto
      show thesis
      proof (cases "vs = []")
        case True
        with g Inr False e assms have "r = Inr () \<and> rest' = rest \<and> errs' = errs2 \<and> w' = w2"
          by (simp add: chunk_try_def)
        with g Inr False e True none_embedded show thesis by simp
      next
        case nonempty: False
        obtain u w3 where u: "VECTORIZE_upsert vs w2 = (u, w3)"
          by (cases "VECTORIZE_upsert vs w2")
        show thesis
        proof (cases u)
          case (Inl err)
          with g Inr False e nonempty u assms
          have "r = Inl err \<and> rest' = rest \<and> errs' = errs2 \<and> w' = w3"
            by (simp add: chunk_try_def)
          with g Inr False e nonempty u Inl upsert_failed show thesis by simp
        next
          case (Inr un)
          with g \<open>g = Inr existing\<close> False e nonempty u assms
          have "r = Inr () \<and> rest' = rest + length vs \<and> errs' = errs2 \<and> w' = w3"
            by (simp add: chunk_try_def)
          with g \<open>g = Inr existing\<close> False e nonempty u Inr upserted show thesis by simp
        qed
      qed
    qed
  qed
qed

lemma chunk_try_failures:
  assumes "chunk_try userId chunk (rest, errs, w) = (r, rest', errs', w')"
  shows "failures w' + length errs = failures w + length errs' + (if isl r then 1 else 0)"
  using assms
proof (cases rule: chunk_try_cases)
  case (check_failed e)
  with getByIds_failures [OF check_failed(1)] show ?thesis by simp
next
  case (none_missing existing)
  with getByIds_failures [OF none_missing(1)] show ?thesis by simp
next
  case (none_embedded existing w1)
  with getByIds_failures [OF none_embedded(1)] embed_missing_failures [OF none_embedded(3)]
  show ?thesis by simp
next
  case (upsert_failed existing w1 vs w2 e)
  with getByIds_failures [OF upsert_failed(1)] embed_missing_failures [OF upsert_failed(3)]
    upsert_failures [OF upsert_failed(5)]
  show ?thesis by simp
next
  case (upserted existing w1 vs w2)
  with getByIds_failures [OF upserted(1)] embed_missing_failures [OF upserted(3)]
    upsert_failures [OF upserted(5)]
  show ?thesis by simp
qed

lemma restore_chunk_failures:
  assumes "restore_chunk userId chunk (rest, errs, w) = (rest', errs', w')" and "chunk \<noteq> []"
  shows "failures w' + length errs \<le> failures w + length errs'"
proof -
  obtain r rest1 errs1 w1 where t: "chunk_try userId chunk (rest, errs, w) = (r, rest1, errs1, w1)"
    by (cases "chunk_try userId chunk (rest, errs, w)") auto
  from assms(2) have "1 \<le> length chunk" by (cases chunk) auto
  with chunk_try_failures [OF t] t assms(1) show ?thesis
    by (cases r) (auto simp: restore_chunk_def)
qed

lemma restore_chunks_failures:
  assumes "restore_chunks userId cs (rest, errs, w) = (rest', errs', w')" and "[] \<notin> set cs"
  shows "failures w' + length errs \<le> failures w + length errs'"
  using assms
proof (induction cs arbitrary: rest errs w)
  case Nil
  then show ?case by simp
next
  case (Cons c cs)
  obtain rest1 errs1 w1 where s: "restore_chunk userId c (rest, errs, w) = (rest1, errs1, w1)"
    by (cases "restore_chunk userId c (rest, errs, w)") auto
  from Cons.prems have "c \<noteq> []" "[] \<notin> set cs" by auto
  with restore_chunk_failures [OF s] Cons.IH [of rest1 errs1 w1] Cons.prems(1) s
  show ?case by fastforce
qed

lemma restore_try_failures:
  assumes "restore_try userId w = (r, rest, errs, w')"
  shows "failures w' \<le> failures w + length errs + (if isl r then 1 else 0)"
proof -
  obtain g w1 where g: "getAllMemoriesFromD1 userId w = (g, w1)"
    by (cases "getAllMemoriesFromD1 userId w")
  show ?thesis
  proof (cases g)
    case (Inl e)
    with g assms getAllMemoriesFromD1_failures [OF g] show ?thesis
      by (auto simp: restore_try_def)
  next
    case (Inr mems)
    show ?thesis
    proof (cases "mems = []")
      case True
      with g Inr assms getAllMemoriesFromD1_failures [OF g] show ?thesis
        by (auto simp: restore_try_def)
    next
      case False
      obtain rest2 errs2 w2 where
        c: "restore_chunks userId (chunks_of mems) (0, [], w1) = (rest2, errs2, w2)"
        by (cases "restore_chunks userId (chunks_of mems) (0, [], w1)") auto
      have "[] \<notin> set (chunks_of mems)" using chunks_of_nonempty by blast
      from restore_chunks_failures [OF c this] g Inr assms
        getAllMemoriesFromD1_failures [OF g] False c
      show ?thesis by (auto simp: restore_try_def)
    qed
  qed
qed

text \<open>
  C10. Reconciliation always returns a record \<open>{restored, errors}\<close>, for every namespace
  and whatever the relational read, the existence checks, the embedding calls and the
  upserts do; and every external call that failed during the run left at least one entry
  in \<open>errors\<close>: the run adds no more failed calls than it reports entries.
\<close>

theorem C10_reconcile_total:
  "\<exists>result. fst (restoreMissingMemoriesToVectorize userId w) = Inr result
      \<and> failures (snd (restoreMissingMemoriesToVectorize userId w))
          \<le> failures w + length (errors result)"
proof -
  obtain r rest errs w' where t: "restore_try userId w = (r, rest, errs, w')"
    by (cases "restore_try userId w") auto
  show ?thesis
  proof (cases r)
    case (Inl e)
    with t restore_try_failures [OF t] show ?thesis
      by (simp add: restoreMissingMemoriesToVectorize_def)
  next
    case (Inr res)
    with t have "errors res = errs"
      by (auto simp: restore_try_def split: prod.splits sum.splits if_splits)
    with Inr t restore_try_failures [OF t] show ?thesis
      by (simp add: restoreMissingMemoriesToVectorize_def)
  qed
qed

subsection \<open>The embedding loop\<close>

lemma generateEmbeddings_world:
  "snd (generateEmbeddings text w) = w\<lparr>AI_log := AI_log w @ [text]\<rparr>"
  by (simp add: generateEmbeddings_def AI_run_def Let_def split: ai_reply.splits list.splits)

lemma generateEmbeddings_isl:
  "isl (fst (generateEmbeddings text w)) = embedding_fails w (length (AI_log w))"
  by (simp add: generateEmbeddings_def AI_run_def Let_def embedding_fails_def
      split: ai_reply.splits list.splits)

lemma zip_upt_Cons:
  "zip (m # ms) [b..<b + length (m # ms)] = (m, b) # zip ms [Suc b..<Suc b + length ms]"
proof -
  have "[b..<b + length (m # ms)] = b # [Suc b..<Suc b + length ms]"
    by (subst upt_rec) simp
  then show ?thesis by (simp only: zip_Cons_Cons)
qed

lemma embed_missing_world:
  assumes "embed_missing userId ms vs errs w = (vs', errs', w')"
  shows "w' = w\<lparr>AI_log := AI_log w @ map r_content ms\<rparr>"
  using assms
proof (induction ms arbitrary: vs errs w)
  case Nil
  then show ?case by simp
next
  case (Cons m ms)
  obtain r w1 where g: "generateEmbeddings (r_content m) w = (r, w1)"
    by (cases "generateEmbeddings (r_content m) w")
  with generateEmbeddings_world [of "r_content m" w]
  have w1: "w1 = w\<lparr>AI_log := AI_log w @ [r_content m]\<rparr>" by simp
  from g Cons.prems obtain vs1 errs1 where
    "embed_missing userId ms vs1 errs1 w1 = (vs', errs', w')"
    by (cases r) auto
  from Cons.IH [OF this] w1 show ?case by simp
qed

lemma embed_missing_vectors:
  assumes "embed_missing userId ms vs errs w = (vs', errs', w')"
  shows "map v_id vs' = map v_id vs @
           map (r_id \<circ> fst)
             (filter (\<lambda>(m, k). \<not> embedding_fails w k)
                (zip ms [length (AI_log w)..<length (AI_log w) + length ms]))"
  using assms
proof (induction ms arbitrary: vs errs w)
  case Nil
  then show ?case by simp
next
  case (Cons m ms)
  obtain r w1 where g: "generateEmbeddings (r_content m) w = (r, w1)"
    by (cases "generateEmbeddings (r_content m) w")
  with generateEmbeddings_world [of "r_content m" w]
  have w1: "w1 = w\<lparr>AI_log := AI_log w @ [r_content m]\<rparr>" by simp
  from g generateEmbeddings_isl [of "r_content m" w]
  have f: "isl r = embedding_fails w (length (AI_log w))" by simp
  have z: "zip (m # ms) [length (AI_log w)..<length (AI_log w) + length (m # ms)]
             = (m, length (AI_log w)) # zip ms [length (AI_log w1)..<length (AI_log w1) + length ms]"
    using zip_upt_Cons [of m ms "length (AI_log w)"] by (simp add: w1)
  show ?case
  proof (cases r)
    case (Inl e)
    with g Cons.prems have "embed_missing userId ms vs
        (errs @ [\<lparr>err_memoryId = r_id m,
                   err_error = ''Failed to generate embedding: '' @ errorMessage e\<rparr>]) w1
        = (vs', errs', w')"
      by simp
    from Cons.IH [OF this] f Inl show ?thesis
      unfolding z by (simp add: w1)
  next
    case (Inr v)
    with g Cons.prems have "embed_missing userId ms
        (vs @ [\<lparr>v_id = r_id m, v_values = v, v_namespace = userId,
                 v_metadata = [(''content'', r_content m), (''type'', ''memory'')]\<rparr>]) errs w1
        = (vs', errs', w')"
      by simp
    from Cons.IH [OF this] f Inr show ?thesis
      unfolding z by (simp add: w1)
  qed
qed

lemma embed_missing_errors:
  assumes "embed_missing userId ms vs errs w = (vs', errs', w')"
  shows "\<exists>E. errs' = errs @ E
           \<and> list_all (\<lambda>e. startsWith (err_error e) ''Failed to generate embedding: '') E
           \<and> map err_memoryId E = map (r_id \<circ> fst)
               (filter (\<lambda>(m, k). embedding_fails w k)
                  (zip ms [length (AI_log w)..<length (AI_log w) + length ms]))"
  using assms
proof (induction ms arbitrary: vs errs w)
  case Nil
  then show ?case by simp
next
  case (Cons m ms)
  obtain r w1 where g: "generateEmbeddings (r_content m) w = (r, w1)"
    by (cases "generateEmbeddings (r_content m) w")
  with generateEmbeddings_world [of "r_content m" w]
  have w1: "w1 = w\<lparr>AI_log := AI_log w @ [r_content m]\<rparr>" by simp
  from g generateEmbeddings_isl [of "r_content m" w]
  have f: "isl r = embedding_fails w (length (AI_log w))" by simp
  have z: "zip (m # ms) [length (AI_log w)..<length (AI_log w) + length (m # ms)]
             = (m, length (AI_log w)) # zip ms [length (AI_log w1)..<length (AI_log w1) + length ms]"
    using zip_upt_Cons [of m ms "length (AI_log w)"] by (simp add: w1)
  show ?case
  proof (cases r)
    case (Inl e)
    define entry where "entry = \<lparr>err_memoryId = r_id m,
                   err_error = ''Failed to generate embedding: '' @ errorMessage e\<rparr>"
    from Inl g Cons.prems have "embed_missing userId ms vs (errs @ [entry]) w1 = (vs', errs', w')"
      by (simp add: entry_def)
    from Cons.IH [OF this] obtain E where
      E: "errs' = (errs @ [entry]) @ E"
         and P: "list_all (\<lambda>e. startsWith (err_error e) ''Failed to generate embedding: '') E"
         and M: "map err_memoryId E = map (r_id \<circ> fst)
               (filter (\<lambda>(m, k). embedding_fails w1 k)
                  (zip ms [length (AI_log w1)..<length (AI_log w1) + length ms]))"
      by blast
    have "errs' = errs @ (entry # E)" using E by simp
    moreover have "startsWith (err_error entry) ''Failed to generate embedding: ''"
      unfolding startsWith_iff entry_def by simp
    with P have "list_all (\<lambda>e. startsWith (err_error e) ''Failed to generate embedding: '') (entry # E)"
      by simp
    moreover have "map err_memoryId (entry # E) = map (r_id \<circ> fst)
               (filter (\<lambda>(m, k). embedding_fails w k)
                  (zip (m # ms) [length (AI_log w)..<length (AI_log w) + length (m # ms)]))"
      unfolding z using M f Inl by (simp add: w1 entry_def)
    ultimately show ?thesis by blast
  next
    case (Inr v)
    with g Cons.prems obtain vs1 where "embed_missing userId ms vs1 errs w1 = (vs', errs', w')"
      by auto
    from Cons.IH [OF this] obtain E where
      E: "errs' = errs @ E"
         and P: "list_all (\<lambda>e. startsWith (err_error e) ''Failed to generate embedding: '') E"
         and M: "map err_memoryId E = map (r_id \<circ> fst)
               (filter (\<lambda>(m, k). embedding_fails w1 k)
                  (zip ms [length (AI_log w1)..<length (AI_log w1) + length ms]))"
      by blast
    have "map err_memoryId E = map (r_id \<circ> fst)
               (filter (\<lambda>(m, k). embedding_fails w k)
                  (zip (m # ms) [length (AI_log w)..<length (AI_log w) + length (m # ms)]))"
      unfolding z using M f Inr by (simp add: w1)
    with E P show ?thesis by blast
  qed
qed

lemma getByIds_world:
  assumes "VECTORIZE_getByIds ids w = (r, w1)"
  shows "w1 = w\<lparr>VECTORIZE_log := VECTORIZE_log w @ [GetByIds ids]\<rparr>"
  using assms by (auto simp: VECTORIZE_getByIds_def Let_def split: option.splits)

lemma upsert_world:
  assumes "VECTORIZE_upsert vs w = (r, w')"
  shows "VECTORIZE_log w' = VECTORIZE_log w @ [Upsert vs]" "AI_log w' = AI_log w"
    "isl r = (VECTORIZE_faults w (length (VECTORIZE_log w)) \<noteq> None)"
  using assms by (auto simp: VECTORIZE_upsert_def Let_def split: option.splits)

subsection \<open>Idempotence\<close>

lemma getByIds_result:
  assumes "VECTORIZE_getByIds ids w = (Inr existing, w1)"
  shows "existing = filter (\<lambda>v. v_id v \<in> set ids) (vindex w)"
  using assms by (auto simp: VECTORIZE_getByIds_def Let_def split: option.splits)

lemma upsert_fold_ids:
  "v_id ` set (fold (\<lambda>v idx. filter (\<lambda>u. v_id u \<noteq> v_id v) idx @ [v]) vs idx)
     = v_id ` set idx \<union> v_id ` set vs"
proof (induction vs arbitrary: idx)
  case Nil
  then show ?case by simp
next
  case (Cons v vs)
  have "v_id ` set (filter (\<lambda>u. v_id u \<noteq> v_id v) idx @ [v]) = insert (v_id v) (v_id ` set idx)"
    by auto
  with Cons.IH [of "filter (\<lambda>u. v_id u \<noteq> v_id v) idx @ [v]"] show ?case by auto
qed

lemma upsert_stores:
  assumes "VECTORIZE_upsert vs w = (r, w')"
  shows "memories w' = memories w"
    and "r = Inr () \<Longrightarrow> v_id ` set (vindex w') = v_id ` set (vindex w) \<union> v_id ` set vs"
    and "isl r \<Longrightarrow> vindex w' = vindex w"
proof -
  show "memories w' = memories w"
    using assms by (auto simp: VECTORIZE_upsert_def Let_def split: option.splits)
  show "isl r \<Longrightarrow> vindex w' = vindex w"
    using assms by (auto simp: VECTORIZE_upsert_def Let_def split: option.splits)
  assume "r = Inr ()"
  with assms have "vindex w' = fold (\<lambda>v idx. filter (\<lambda>u. v_id u \<noteq> v_id v) idx @ [v]) vs (vindex w)"
    by (auto simp: VECTORIZE_upsert_def Let_def split: option.splits)
  then show "v_id ` set (vindex w') = v_id ` set (vindex w) \<union> v_id ` set vs"
    by (simp only: upsert_fold_ids)
qed

lemma embed_missing_grows:
  assumes "embed_missing userId ms vs errs w = (vs', errs', w')"
  shows "v_id ` set vs \<subseteq> v_id ` set vs' \<and> length errs \<le> length errs'"
  using assms
proof (induction ms arbitrary: vs errs w)
  case Nil
  then show ?case by simp
next
  case (Cons m ms)
  obtain r w1 where g: "generateEmbeddings (r_content m) w = (r, w1)"
    by (cases "generateEmbeddings (r_content m) w")
  show ?case
  proof (cases r)
    case (Inl e)
    with g Cons.prems have "embed_missing userId ms vs
        (errs @ [\<lparr>err_memoryId = r_id m,
                   err_error = ''Failed to generate embedding: '' @ errorMessage e\<rparr>]) w1
        = (vs', errs', w')"
      by simp
    from Cons.IH [OF this] show ?thesis by simp
  next
    case (Inr v)
    with g Cons.prems have "embed_missing userId ms
        (vs @ [\<lparr>v_id = r_id m, v_values = v, v_namespace = userId,
                 v_metadata = [(''content'', r_content m), (''type'', ''memory'')]\<rparr>]) errs w1
        = (vs', errs', w')"
      by simp
    from Cons.IH [OF this] show ?thesis by auto
  qed
qed

lemma embed_missing_all:
  assumes "embed_missing userId ms vs errs w = (vs', errs', w')"
  shows "r_id ` set ms \<subseteq> v_id ` set vs' \<union> err_memoryId ` set errs'"
  using assms
proof (induction ms arbitrary: vs errs w)
  case Nil
  then show ?case by simp
next
  case (Cons m ms)
  obtain r w1 where g: "generateEmbeddings (r_content m) w = (r, w1)"
    by (cases "generateEmbeddings (r_content m) w")
  show ?case
  proof (cases r)
    case (Inl e)
    define entry where "entry = \<lparr>err_memoryId = r_id m,
                 err_error = ''Failed to generate embedding: '' @ errorMessage e\<rparr>"
    from Inl g Cons.prems
    have s: "embed_missing userId ms vs (errs @ [entry]) w1 = (vs', errs', w')"
      by (simp add: entry_def)
    from embed_missing_errors [OF s] have "entry \<in> set errs'" by auto
    then have "err_memoryId entry \<in> err_memoryId ` set errs'" by (rule imageI)
    then have "r_id m \<in> err_memoryId ` set errs'" by (simp add: entry_def)
    with Cons.IH [OF s] show ?thesis by auto
  next
    case (Inr v)
    define entry where "entry = \<lparr>v_id = r_id m, v_values = v, v_namespace = userId,
               v_metadata = [(''content'', r_content m), (''type'', ''memory'')]\<rparr>"
    from Inr g Cons.prems
    have s: "embed_missing userId ms (vs @ [entry]) errs w1 = (vs', errs', w')"
      by (simp add: entry_def)
    from embed_missing_grows [OF s] have "v_id entry \<in> v_id ` set vs'" by auto
    then have "r_id m \<in> v_id ` set vs'" by (simp add: entry_def)
    with Cons.IH [OF s] show ?thesis by auto
  qed
qed

lemma embed_missing_stores:
  assumes "embed_missing userId ms vs errs w = (vs', errs', w')"
  shows "vindex w' = vindex w" "memories w' = memories w"
  using embed_missing_world [OF assms] by simp_all

lemma getByIds_stores:
  assumes "VECTORIZE_getByIds ids w = (r, w1)"
  shows "vindex w1 = vindex w" "memories w1 = memories w"
  using getByIds_world [OF assms] by simp_all

text \<open>One chunk: the table is untouched and the ids of the index only grow.\<close>

lemma restore_chunk_stores:
  assumes "restore_chunk userId chunk (rest, errs, w) = (rest', errs', w')"
  shows "memories w' = memories w"
    and "v_id ` set (vindex w) \<subseteq> v_id ` set (vindex w')"
    and "length errs \<le> length errs'"
proof -
  obtain r rest1 errs1 wt where t: "chunk_try userId chunk (rest, errs, w) = (r, rest1, errs1, wt)"
    by (cases "chunk_try userId chunk (rest, errs, w)") auto
  from t assms have fin: "w' = wt" "length errs1 \<le> length errs'"
    by (cases r; auto simp: restore_chunk_def)+
  have "memories wt = memories w \<and> v_id ` set (vindex w) \<subseteq> v_id ` set (vindex wt)
        \<and> length errs \<le> length errs1"
    using t
  proof (cases rule: chunk_try_cases)
    case (check_failed e)
    with getByIds_stores [OF check_failed(1)] show ?thesis by simp
  next
    case (none_missing existing)
    with getByIds_stores [OF none_missing(1)] show ?thesis by simp
  next
    case (none_embedded existing w1)
    with getByIds_stores [OF none_embedded(1)] embed_missing_stores [OF none_embedded(3)]
      embed_missing_grows [OF none_embedded(3)]
    show ?thesis by simp
  next
    case (upsert_failed existing w1 vs w2 e)
    with getByIds_stores [OF upsert_failed(1)] embed_missing_stores [OF upsert_failed(3)]
      embed_missing_grows [OF upsert_failed(3)] upsert_stores(1,3) [OF upsert_failed(5)]
    show ?thesis by simp
  next
    case (upserted existing w1 vs w2)
    with getByIds_stores [OF upserted(1)] embed_missing_stores [OF upserted(3)]
      embed_missing_grows [OF upserted(3)] upsert_stores(1,2) [OF upserted(5)]
    show ?thesis by auto
  qed
  with fin show "memories w' = memories w"
    and "v_id ` set (vindex w) \<subseteq> v_id ` set (vindex w')"
    and "length errs \<le> length errs'"
    by auto
qed

text \<open>A chunk processed without any error entry has all its vectors afterwards.\<close>

lemma restore_chunk_clean:
  assumes "restore_chunk userId chunk (rest, errs, w) = (rest', [], w')" and "chunk \<noteq> []"
  shows "r_id ` set chunk \<subseteq> v_id ` set (vindex w')"
proof -
  obtain r rest1 errs1 wt where t: "chunk_try userId chunk (rest, errs, w) = (r, rest1, errs1, wt)"
    by (cases "chunk_try userId chunk (rest, errs, w)") auto
  have fin: "w' = wt \<and> errs1 = [] \<and> r = Inr ()"
  proof (cases r)
    case (Inl e)
    with t assms(1) have "map (\<lambda>memory. \<lparr>err_memoryId = r_id memory,
        err_error = ''Chunk processing failed: '' @ errorMessage e\<rparr>) chunk = []"
      by (simp add: restore_chunk_def)
    with assms(2) show ?thesis by simp
  next
    case (Inr u)
    with t assms(1) show ?thesis by (simp add: restore_chunk_def)
  qed
  have present: "r_id ` set chunk \<subseteq> v_id ` set existing \<union> r_id ` set (missing_memories existing chunk)"
    for existing
    by (auto simp: missing_memories_def)
  show ?thesis
    using t
  proof (cases rule: chunk_try_cases)
    case (check_failed e)
    with fin show ?thesis by simp
  next
    case (none_missing existing)
    from getByIds_result [OF none_missing(1)]
    have A: "v_id ` set existing \<subseteq> v_id ` set (vindex w)"
      by auto
    from getByIds_stores(1) [OF none_missing(1)] fin have B: "vindex w' = vindex w" by simp
    from present [of existing] none_missing(2)
    have C: "r_id ` set chunk \<subseteq> v_id ` set existing" by simp
    show ?thesis unfolding B by (rule order_trans [OF C A])
  next
    case (none_embedded existing w1)
    from embed_missing_all [OF none_embedded(3)] fin
    have "r_id ` set (missing_memories existing chunk) \<subseteq> {}" by simp
    with none_embedded(2) show ?thesis by (cases "missing_memories existing chunk") simp_all
  next
    case (upsert_failed existing w1 vs w2 e)
    with fin show ?thesis by simp
  next
    case (upserted existing w1 vs w2)
    from getByIds_result [OF upserted(1)] have 1: "v_id ` set existing \<subseteq> v_id ` set (vindex w)"
      by auto
    from embed_missing_all [OF upserted(3)] fin
    have 2: "r_id ` set (missing_memories existing chunk) \<subseteq> v_id ` set vs" by simp
    from upsert_stores(2) [OF upserted(5)] embed_missing_stores(1) [OF upserted(3)]
      getByIds_stores(1) [OF upserted(1)] fin
    have 3: "v_id ` set (vindex w') = v_id ` set (vindex w) \<union> v_id ` set vs" by simp
    from 1 2 have "v_id ` set existing \<union> r_id ` set (missing_memories existing chunk)
        \<subseteq> v_id ` set (vindex w) \<union> v_id ` set vs"
      by (rule Un_mono)
    with present [of existing] show ?thesis unfolding 3 by (rule order_trans)
  qed
qed

lemma restore_chunks_stores:
  assumes "restore_chunks userId cs (rest, errs, w) = (rest', errs', w')"
  shows "memories w' = memories w \<and> v_id ` set (vindex w) \<subseteq> v_id ` set (vindex w')
         \<and> length errs \<le> length errs'"
  using assms
proof (induction cs arbitrary: rest errs w)
  case Nil
  then show ?case by simp
next
  case (Cons c cs)
  obtain rest1 errs1 w1 where s: "restore_chunk userId c (rest, errs, w) = (rest1, errs1, w1)"
    by (cases "restore_chunk userId c (rest, errs, w)") auto
  with Cons.prems have "restore_chunks userId cs (rest1, errs1, w1) = (rest', errs', w')"
    by simp
  from Cons.IH [OF this] restore_chunk_stores [OF s] show ?case
    by (auto intro: order_trans)
qed

lemma restore_chunks_clean:
  assumes "restore_chunks userId cs (rest, errs, w) = (rest', [], w')" and "[] \<notin> set cs"
  shows "\<forall>c \<in> set cs. r_id ` set c \<subseteq> v_id ` set (vindex w')"
  using assms
proof (induction cs arbitrary: rest errs w)
  case Nil
  then show ?case by simp
next
  case (Cons c cs)
  obtain rest1 errs1 w1 where s: "restore_chunk userId c (rest, errs, w) = (rest1, errs1, w1)"
    by (cases "restore_chunk userId c (rest, errs, w)") auto
  with Cons.prems(1) have r: "restore_chunks userId cs (rest1, errs1, w1) = (rest', [], w')"
    by simp
  from restore_chunks_stores [OF r] have e: "errs1 = []"
    and g: "v_id ` set (vindex w1) \<subseteq> v_id ` set (vindex w')"
    by simp_all
  from Cons.prems(2) have ne: "c \<noteq> []" "[] \<notin> set cs" by auto
  from s e have "restore_chunk userId c (rest, errs, w) = (rest1, [], w1)" by simp
  from restore_chunk_clean [OF this ne(1)] g
  have "r_id ` set c \<subseteq> v_id ` set (vindex w')" by (rule order_trans)
  with Cons.IH [OF r ne(2)] show ?case by simp
qed

lemma missing_none:
  assumes "r_id ` set chunk \<subseteq> v_id ` set idx"
  shows "missing_memories (filter (\<lambda>v. v_id v \<in> set (map r_id chunk)) idx) chunk = []"
proof -
  have "r_id m \<in> v_id ` set (filter (\<lambda>v. v_id v \<in> set (map r_id chunk)) idx)"
    if m: "m \<in> set chunk" for m
  proof -
    from m assms obtain v where v: "v \<in> set idx" "v_id v = r_id m" by force
    with m have "v \<in> set (filter (\<lambda>v. v_id v \<in> set (map r_id chunk)) idx)" by simp
    with v(2) show ?thesis by force
  qed
  then show ?thesis
    by (simp add: missing_memories_def filter_empty_conv)
qed

text \<open>A chunk whose vectors are all there: nothing is embedded, upserted or counted.\<close>

lemma restore_chunk_present:
  assumes "restore_chunk userId chunk (rest, errs, w) = (rest', errs', w')"
      and "r_id ` set chunk \<subseteq> v_id ` set (vindex w)"
  shows "rest' = rest \<and> vindex w' = vindex w \<and> memories w' = memories w \<and> AI_log w' = AI_log w"
proof -
  obtain r rest1 errs1 wt where t: "chunk_try userId chunk (rest, errs, w) = (r, rest1, errs1, wt)"
    by (cases "chunk_try userId chunk (rest, errs, w)") auto
  from t assms(1) have fin: "rest' = rest1 \<and> w' = wt"
    by (cases r) (auto simp: restore_chunk_def)
  have none: "missing_memories existing chunk = []"
    if "VECTORIZE_getByIds (map r_id chunk) w = (Inr existing, w1)" for existing w1
    using getByIds_result [OF that] missing_none [OF assms(2)] by simp
  show ?thesis
    using t
  proof (cases rule: chunk_try_cases)
    case (check_failed e)
    with getByIds_world [OF check_failed(1)] fin show ?thesis by simp
  next
    case (none_missing existing)
    with getByIds_world [OF none_missing(1)] fin show ?thesis by simp
  next
    case (none_embedded existing w1)
    with none [OF none_embedded(1)] show ?thesis by simp
  next
    case (upsert_failed existing w1 vs w2 e)
    with none [OF upsert_failed(1)] show ?thesis by simp
  next
    case (upserted existing w1 vs w2)
    with none [OF upserted(1)] show ?thesis by simp
  qed
qed

lemma restore_chunks_present:
  assumes "restore_chunks userId cs (rest, errs, w) = (rest', errs', w')"
      and "\<forall>c \<in> set cs. r_id ` set c \<subseteq> v_id ` set (vindex w)"
  shows "rest' = rest \<and> vindex w' = vindex w \<and> memories w' = memories w \<and> AI_log w' = AI_log w"
  using assms
proof (induction cs arbitrary: rest errs w)
  case Nil
  then show ?case by simp
next
  case (Cons c cs)
  obtain rest1 errs1 w1 where s: "restore_chunk userId c (rest, errs, w) = (rest1, errs1, w1)"
    by (cases "restore_chunk userId c (rest, errs, w)") auto
  with Cons.prems(1) have r: "restore_chunks userId cs (rest1, errs1, w1) = (rest', errs', w')"
    by simp
  from Cons.prems(2) have c: "r_id ` set c \<subseteq> v_id ` set (vindex w)" by simp
  note p = restore_chunk_present [OF s c]
  with Cons.prems(2) have "\<forall>c \<in> set cs. r_id ` set c \<subseteq> v_id ` set (vindex w1)" by simp
  from Cons.IH [OF r this] p show ?case by simp
qed

lemma getAllMemoriesFromD1_result:
  assumes "getAllMemoriesFromD1 userId w = (r, w1)"
  shows "w1 = w\<lparr>DB_calls := Suc (DB_calls w)\<rparr>"
    and "r = Inr mems \<Longrightarrow> mems = filter (\<lambda>r. r_userId r = userId) (memories w)"
  using assms by (auto simp: getAllMemoriesFromD1_def Let_def split: option.splits)

text \<open>After a run that reported no error, every memory of the user has its vector.\<close>

lemma clean_run_all_present:
  assumes "restoreMissingMemoriesToVectorize userId w = (Inr r1, w1)" and "errors r1 = []"
  shows "memories w1 = memories w"
    and "\<forall>c \<in> set (chunks_of (filter (\<lambda>r. r_userId r = userId) (memories w1))).
           r_id ` set c \<subseteq> v_id ` set (vindex w1)"
proof -
  obtain g wa where g: "getAllMemoriesFromD1 userId w = (g, wa)"
    by (cases "getAllMemoriesFromD1 userId w")
  note wa = getAllMemoriesFromD1_result(1) [OF g]
  have both: "memories w1 = memories w \<and>
      (\<forall>c \<in> set (chunks_of (filter (\<lambda>r. r_userId r = userId) (memories w))).
           r_id ` set c \<subseteq> v_id ` set (vindex w1))"
  proof (cases g)
    case (Inl e)
    with g assms(1) have "errors r1 \<noteq> []"
      by (auto simp: restoreMissingMemoriesToVectorize_def restore_try_def)
    with assms(2) show ?thesis by simp
  next
    case (Inr mems)
    note mems = getAllMemoriesFromD1_result(2) [OF g Inr]
    show ?thesis
    proof (cases "mems = []")
      case True
      with g Inr assms(1) have "w1 = wa"
        by (simp add: restoreMissingMemoriesToVectorize_def restore_try_def)
      with wa True mems show ?thesis by simp
    next
      case False
      obtain rest2 errs2 w2 where
        c: "restore_chunks userId (chunks_of mems) (0, [], wa) = (rest2, errs2, w2)"
        by (cases "restore_chunks userId (chunks_of mems) (0, [], wa)") auto
      with g Inr False assms have "w1 = w2" "errs2 = []"
        by (auto simp: restoreMissingMemoriesToVectorize_def restore_try_def)
      with c have c': "restore_chunks userId (chunks_of mems) (0, [], wa) = (rest2, [], w1)"
        by simp
      have "[] \<notin> set (chunks_of mems)" using chunks_of_nonempty by blast
      from restore_chunks_clean [OF c' this] restore_chunks_stores [OF c'] wa mems
      show ?thesis by simp
    qed
  qed
  then show "memories w1 = memories w"
    and "\<forall>c \<in> set (chunks_of (filter (\<lambda>r. r_userId r = userId) (memories w1))).
           r_id ` set c \<subseteq> v_id ` set (vindex w1)"
    by simp_all
qed

lemma all_present_run:
  assumes "\<forall>c \<in> set (chunks_of (filter (\<lambda>r. r_userId r = userId) (memories w))).
           r_id ` set c \<subseteq> v_id ` set (vindex w)"
  shows "\<exists>r2 w2. restoreMissingMemoriesToVectorize userId w = (Inr r2, w2) \<and> restored r2 = 0
           \<and> vindex w2 = vindex w \<and> memories w2 = memories w \<and> AI_log w2 = AI_log w"
proof -
  obtain g wa where g: "getAllMemoriesFromD1 userId w = (g, wa)"
    by (cases "getAllMemoriesFromD1 userId w")
  note wa = getAllMemoriesFromD1_result(1) [OF g]
  show ?thesis
  proof (cases g)
    case (Inl e)
    with g wa show ?thesis
      by (simp add: restoreMissingMemoriesToVectorize_def restore_try_def)
  next
    case (Inr mems)
    note mems = getAllMemoriesFromD1_result(2) [OF g Inr]
    show ?thesis
    proof (cases "mems = []")
      case True
      with g Inr wa show ?thesis
        by (simp add: restoreMissingMemoriesToVectorize_def restore_try_def)
    next
      case False
      obtain rest2 errs2 w2 where
        c: "restore_chunks userId (chunks_of mems) (0, [], wa) = (rest2, errs2, w2)"
        by (cases "restore_chunks userId (chunks_of mems) (0, [], wa)") auto
      from assms mems wa
      have "\<forall>c \<in> set (chunks_of mems). r_id ` set c \<subseteq> v_id ` set (vindex wa)" by simp
      from restore_chunks_present [OF c this] wa g Inr False c show ?thesis
        by (simp add: restoreMissingMemoriesToVectorize_def restore_try_def)
    qed
  qed
qed

text \<open>
  C5. After a reconcile pass that reported no error, with nothing written in between, a
  second pass for the same namespace finds no missing id: every existence check that
  answers reports all ids of its chunk; it embeds and upserts nothing and returns
  \<open>restored: 0\<close>, whatever the services do during the second pass.
\<close>

theorem C5_reconcile_idempotent:
  assumes "restoreMissingMemoriesToVectorize userId w = (Inr r1, w1)" and "errors r1 = []"
  shows "(\<exists>r2 w2. restoreMissingMemoriesToVectorize userId w1 = (Inr r2, w2) \<and> restored r2 = 0
            \<and> vindex w2 = vindex w1 \<and> AI_log w2 = AI_log w1)
         \<and> (\<forall>c \<in> set (chunks_of (filter (\<lambda>r. r_userId r = userId) (memories w1))).
              missing_memories (filter (\<lambda>v. v_id v \<in> set (map r_id c)) (vindex w1)) c = [])"
proof -
  note p = clean_run_all_present(2) [OF assms]
  from all_present_run [OF p] have 1:
    "\<exists>r2 w2. restoreMissingMemoriesToVectorize userId w1 = (Inr r2, w2) \<and> restored r2 = 0
            \<and> vindex w2 = vindex w1 \<and> AI_log w2 = AI_log w1"
    by blast
  from p missing_none have 2:
    "\<forall>c \<in> set (chunks_of (filter (\<lambda>r. r_userId r = userId) (memories w1))).
              missing_memories (filter (\<lambda>v. v_id v \<in> set (map r_id c)) (vindex w1)) c = []"
    by blast
  from 1 2 show ?thesis by (rule conjI)
qed

lemma reconcile_world_run:
  "restoreMissingMemoriesToVectorize ''u1'' reconcile_world
     = (Inr \<lparr>restored = 2, errors = []\<rparr>, reconcile_world_after)"
  by (simp add: restoreMissingMemoriesToVectorize_def restore_try_def getAllMemoriesFromD1_def
      restore_chunk_def chunk_try_def VECTORIZE_getByIds_def missing_memories_def
      generateEmbeddings_def AI_run_def VECTORIZE_upsert_def CHUNK_SIZE_def
      reconcile_world_after_def reconcile_world_def chunk_world_def Let_def)

theorem C5_reconcile_idempotent_witness:
  "restoreMissingMemoriesToVectorize ''u1'' reconcile_world
     = (Inr \<lparr>restored = 2, errors = []\<rparr>, reconcile_world_after)
   \<and> errors \<lparr>restored = 2, errors = []\<rparr> = []
   \<and> (\<exists>r2 w2. restoreMissingMemoriesToVectorize ''u1'' reconcile_world_after = (Inr r2, w2)
          \<and> restored r2 = 0
          \<and> vindex w2 = vindex reconcile_world_after \<and> AI_log w2 = AI_log reconcile_world_after)
   \<and> list_all
         (\<lambda>c. missing_memories (filter (\<lambda>v. v_id v \<in> set (map r_id c)) (vindex reconcile_world_after)) c
                = [])
         (chunks_of (filter (\<lambda>r. r_userId r = ''u1'') (memories reconcile_world_after)))"
proof -
  have clean: "errors \<lparr>restored = 2, errors = []\<rparr> = []" by simp
  from C5_reconcile_idempotent [OF reconcile_world_run clean] reconcile_world_run clean
  show ?thesis unfolding list_all_iff by (intro conjI) simp_all
qed

subsection \<open>The whole run\<close>

lemma failed_ids_append:
  "failed_ids w k (xs @ ys) = failed_ids w k xs @ failed_ids w (k + length xs) ys"
  by (induction xs arbitrary: k) simp_all

lemma embedded_ids_append:
  "embedded_ids w k (xs @ ys) = embedded_ids w k xs @ embedded_ids w (k + length xs) ys"
  by (induction xs arbitrary: k) simp_all

lemma failed_ids_zip:
  "failed_ids w k ms
     = map (r_id \<circ> fst) (filter (\<lambda>(m, k). embedding_fails w k) (zip ms [k..<k + length ms]))"
proof (induction ms arbitrary: k)
  case Nil
  then show ?case by simp
next
  case (Cons m ms)
  show ?case
    unfolding zip_upt_Cons [of m ms k] using Cons.IH [of "Suc k"] by simp
qed

lemma embedded_ids_zip:
  "embedded_ids w k ms
     = map (r_id \<circ> fst) (filter (\<lambda>(m, k). \<not> embedding_fails w k) (zip ms [k..<k + length ms]))"
proof (induction ms arbitrary: k)
  case Nil
  then show ?case by simp
next
  case (Cons m ms)
  show ?case
    unfolding zip_upt_Cons [of m ms k] using Cons.IH [of "Suc k"] by simp
qed

lemma embedding_fails_cong:
  "AI_replies w' = AI_replies w \<Longrightarrow> embedding_fails w' = embedding_fails w"
  by (rule ext) (simp add: embedding_fails_def)

lemma failed_ids_cong:
  assumes "AI_replies w' = AI_replies w"
  shows "failed_ids w' k ms = failed_ids w k ms"
  by (induction ms arbitrary: k) (simp_all add: embedding_fails_cong [OF assms])

lemma embedded_ids_cong:
  assumes "AI_replies w' = AI_replies w"
  shows "embedded_ids w' k ms = embedded_ids w k ms"
  by (induction ms arbitrary: k) (simp_all add: embedding_fails_cong [OF assms])

lemma embedded_ids_subset: "set (embedded_ids w k ms) \<subseteq> r_id ` set ms"
  by (induction ms arbitrary: k) (simp, simp, blast)

lemma existence_checks_append:
  "existence_checks (xs @ ys) = existence_checks xs @ existence_checks ys"
  by (induction xs) simp_all

lemma all_upserts_append: "all_upserts (xs @ ys) = all_upserts xs @ all_upserts ys"
  by (induction xs) simp_all

lemma successful_upserts_append:
  "successful_upserts f n (xs @ ys)
     = successful_upserts f n xs @ successful_upserts f (n + length xs) ys"
  by (induction xs arbitrary: n) simp_all

lemma row_ids_simps [simp]:
  "row_ids [] = {}"
  "row_ids (xs @ ys) = row_ids xs \<union> row_ids ys"
  by (simp_all add: row_ids_def image_Un)

lemma error_ids_simps [simp]:
  "error_ids [] = {}"
  "error_ids (xs @ ys) = error_ids xs \<union> error_ids ys"
  by (simp_all add: error_ids_def image_Un)

lemma chunk_effect_refl: "chunk_effect w w [] [] [] []"
  by (simp add: chunk_effect_def)

lemma chunk_effectD:
  assumes "chunk_effect w w' cs att calls E"
  shows "subseq att (concat cs)"
    and "row_ids att \<inter> index_ids w = {}"
    and "row_ids (concat cs) \<subseteq> index_ids w \<union> row_ids att \<union> error_ids E"
    and "index_ids w \<subseteq> index_ids w'"
    and "index_ids w' \<subseteq> index_ids w \<union> row_ids att"
    and "AI_log w' = AI_log w @ map r_content att"
    and "map err_memoryId (filter is_embedding_error E) = failed_ids w (length (AI_log w)) att"
    and "VECTORIZE_log w' = VECTORIZE_log w @ calls"
    and "existence_checks calls = map (map r_id) cs"
    and "map v_id (all_upserts calls) = embedded_ids w (length (AI_log w)) att"
    and "AI_replies w' = AI_replies w"
    and "VECTORIZE_faults w' = VECTORIZE_faults w"
  using assms unfolding chunk_effect_def by simp_all

lemma chunk_effect_trans:
  assumes a: "chunk_effect w w1 cs1 a1 c1 E1" and b: "chunk_effect w1 w2 cs2 a2 c2 E2"
  shows "chunk_effect w w2 (cs1 @ cs2) (a1 @ a2) (c1 @ c2) (E1 @ E2)"
proof -
  note a = chunk_effectD [OF a]
  note b = chunk_effectD [OF b]
  have len: "length (AI_log w1) = length (AI_log w) + length a1" using a(6) by simp
  have 1: "subseq (a1 @ a2) (concat (cs1 @ cs2))"
    unfolding concat_append using a(1) b(1) by (rule list_emb_append_mono)
  have 2: "row_ids (a1 @ a2) \<inter> index_ids w = {}"
    using a(2) b(2) a(4) by (simp only: row_ids_simps) blast
  have 3: "row_ids (concat (cs1 @ cs2))
             \<subseteq> index_ids w \<union> row_ids (a1 @ a2) \<union> error_ids (E1 @ E2)"
    using a(3) b(3) a(5) by (simp only: concat_append row_ids_simps error_ids_simps) blast
  have 4: "index_ids w \<subseteq> index_ids w2"
    using a(4) b(4) by (rule order_trans)
  have 5: "index_ids w2 \<subseteq> index_ids w \<union> row_ids (a1 @ a2)"
    using a(5) b(5) by (simp only: row_ids_simps) blast
  have 6: "AI_log w2 = AI_log w @ map r_content (a1 @ a2)"
    using a(6) b(6) by simp
  have "failed_ids w1 (length (AI_log w1)) a2 = failed_ids w (length (AI_log w) + length a1) a2"
    by (simp only: failed_ids_cong [OF a(11)] len)
  with a(7) b(7) have 7: "map err_memoryId (filter is_embedding_error (E1 @ E2))
             = failed_ids w (length (AI_log w)) (a1 @ a2)"
    by (simp only: failed_ids_append filter_append map_append)
  have 8: "VECTORIZE_log w2 = VECTORIZE_log w @ c1 @ c2"
    using a(8) b(8) by simp
  have 9: "existence_checks (c1 @ c2) = map (map r_id) (cs1 @ cs2)"
    using a(9) b(9) by (simp only: existence_checks_append map_append)
  have "embedded_ids w1 (length (AI_log w1)) a2 = embedded_ids w (length (AI_log w) + length a1) a2"
    by (simp only: embedded_ids_cong [OF a(11)] len)
  with a(10) b(10)
  have 10: "map v_id (all_upserts (c1 @ c2)) = embedded_ids w (length (AI_log w)) (a1 @ a2)"
    by (simp only: all_upserts_append embedded_ids_append map_append)
  have 11: "AI_replies w2 = AI_replies w" using a(11) b(11) by simp
  have 12: "VECTORIZE_faults w2 = VECTORIZE_faults w" using a(12) b(12) by simp
  from 1 2 3 4 5 6 7 8 9 10 11 12 show ?thesis
    unfolding chunk_effect_def by (intro conjI)
qed

lemma chunk_effectI:
  assumes "subseq att (concat cs)"
    and "row_ids att \<inter> index_ids w = {}"
    and "row_ids (concat cs) \<subseteq> index_ids w \<union> row_ids att \<union> error_ids E"
    and "index_ids w \<subseteq> index_ids w'"
    and "index_ids w' \<subseteq> index_ids w \<union> row_ids att"
    and "AI_log w' = AI_log w @ map r_content att"
    and "map err_memoryId (filter is_embedding_error E) = failed_ids w (length (AI_log w)) att"
    and "VECTORIZE_log w' = VECTORIZE_log w @ calls"
    and "existence_checks calls = map (map r_id) cs"
    and "map v_id (all_upserts calls) = embedded_ids w (length (AI_log w)) att"
    and "AI_replies w' = AI_replies w"
    and "VECTORIZE_faults w' = VECTORIZE_faults w"
  shows "chunk_effect w w' cs att calls E"
  unfolding chunk_effect_def using assms by (intro conjI)

lemma missing_memories_props:
  assumes "existing = filter (\<lambda>v. v_id v \<in> set (map r_id chunk)) idx"
  shows "subseq (missing_memories existing chunk) chunk"
    and "row_ids (missing_memories existing chunk) \<inter> v_id ` set idx = {}"
    and "row_ids chunk \<subseteq> v_id ` set idx \<union> row_ids (missing_memories existing chunk)"
proof -
  show "subseq (missing_memories existing chunk) chunk"
    by (simp add: missing_memories_def)
  have in_existing: "r_id m \<in> v_id ` set existing"
    if m: "m \<in> set chunk" and i: "r_id m \<in> v_id ` set idx" for m
  proof -
    from i obtain v where v: "v \<in> set idx" "r_id m = v_id v" by (rule imageE) 
    from m have "r_id m \<in> set (map r_id chunk)" by simp
    with v have "v \<in> set existing" by (simp add: assms)
    then have "v_id v \<in> v_id ` set existing" by (rule imageI)
    with v(2) show ?thesis by simp
  qed
  show "row_ids (missing_memories existing chunk) \<inter> v_id ` set idx = {}"
  proof (rule ccontr)
    assume "row_ids (missing_memories existing chunk) \<inter> v_id ` set idx \<noteq> {}"
    then obtain i where i: "i \<in> row_ids (missing_memories existing chunk)" "i \<in> v_id ` set idx"
      by blast
    from i(1) obtain m where m: "m \<in> set (missing_memories existing chunk)" "i = r_id m"
      unfolding row_ids_def by (rule imageE)
    from m(1) have c: "m \<in> set chunk" and n: "r_id m \<notin> v_id ` set existing"
      by (simp_all add: missing_memories_def)
    from in_existing [OF c] i(2) m(2) n show False by simp
  qed
  show "row_ids chunk \<subseteq> v_id ` set idx \<union> row_ids (missing_memories existing chunk)"
  proof
    fix i assume "i \<in> row_ids chunk"
    then obtain m where m: "m \<in> set chunk" "i = r_id m"
      unfolding row_ids_def by (rule imageE)
    show "i \<in> v_id ` set idx \<union> row_ids (missing_memories existing chunk)"
    proof (cases "r_id m \<in> v_id ` set existing")
      case True
      then obtain v where "v \<in> set existing" "r_id m = v_id v" by (rule imageE)
      then have "v \<in> set idx" "r_id m = v_id v" by (simp_all add: assms)
      then have "r_id m \<in> v_id ` set idx" by simp
      with m(2) show ?thesis by simp
    next
      case False
      with m(1) have "m \<in> set (missing_memories existing chunk)"
        by (simp add: missing_memories_def)
      then have "r_id m \<in> row_ids (missing_memories existing chunk)"
        unfolding row_ids_def by (rule imageI)
      with m(2) show ?thesis by simp
    qed
  qed
qed

lemma chunk_errors_ids:
  "error_ids (map (\<lambda>memory. \<lparr>err_memoryId = r_id memory, err_error = msg\<rparr>) chunk) = row_ids chunk"
  by (simp add: error_ids_def row_ids_def image_image)

lemma chunk_errors_not_embedding:
  "filter is_embedding_error
     (map (\<lambda>memory. \<lparr>err_memoryId = r_id memory,
                       err_error = ''Chunk processing failed: '' @ x\<rparr>) chunk) = []"
  by (induction chunk) (simp_all add: is_embedding_error_def)

lemma embedding_errors_all:
  "list_all (\<lambda>e. startsWith (err_error e) ''Failed to generate embedding: '') E
     \<Longrightarrow> filter is_embedding_error E = E"
  by (induction E) (simp_all add: is_embedding_error_def)

lemma upsert_services:
  assumes "VECTORIZE_upsert vs w = (r, w')"
  shows "AI_replies w' = AI_replies w" "VECTORIZE_faults w' = VECTORIZE_faults w"
  using assms by (auto simp: VECTORIZE_upsert_def Let_def split: option.splits)

lemma getByIds_effect:
  assumes "VECTORIZE_getByIds ids w = (r, w1)"
  shows "index_ids w1 = index_ids w" "AI_log w1 = AI_log w"
    "VECTORIZE_log w1 = VECTORIZE_log w @ [GetByIds ids]"
    "AI_replies w1 = AI_replies w" "VECTORIZE_faults w1 = VECTORIZE_faults w"
  by (simp_all add: getByIds_world [OF assms] index_ids_def)

lemma getByIds_missing:
  assumes "VECTORIZE_getByIds (map r_id chunk) w = (Inr existing, w1)"
  shows "subseq (missing_memories existing chunk) chunk"
    and "row_ids (missing_memories existing chunk) \<inter> index_ids w = {}"
    and "row_ids chunk \<subseteq> index_ids w \<union> row_ids (missing_memories existing chunk)"
  unfolding index_ids_def
  by (rule missing_memories_props [OF getByIds_result [OF assms]])+

lemma embed_missing_effect:
  assumes "embed_missing userId ms [] errs w1 = (vs, errs2, w2)"
  shows "index_ids w2 = index_ids w1" "AI_log w2 = AI_log w1 @ map r_content ms"
    "VECTORIZE_log w2 = VECTORIZE_log w1"
    "AI_replies w2 = AI_replies w1" "VECTORIZE_faults w2 = VECTORIZE_faults w1"
    "map v_id vs = embedded_ids w1 (length (AI_log w1)) ms"
    "\<exists>E. errs2 = errs @ E \<and> filter is_embedding_error E = E
         \<and> map err_memoryId E = failed_ids w1 (length (AI_log w1)) ms"
proof -
  note w2 = embed_missing_world [OF assms]
  show "index_ids w2 = index_ids w1" "AI_log w2 = AI_log w1 @ map r_content ms"
    "VECTORIZE_log w2 = VECTORIZE_log w1"
    "AI_replies w2 = AI_replies w1" "VECTORIZE_faults w2 = VECTORIZE_faults w1"
    by (simp_all add: w2 index_ids_def)
  from embed_missing_vectors [OF assms]
  show "map v_id vs = embedded_ids w1 (length (AI_log w1)) ms"
    by (simp add: embedded_ids_zip)
  from embed_missing_errors [OF assms] obtain E where
    E: "errs2 = errs @ E"
      "list_all (\<lambda>e. startsWith (err_error e) ''Failed to generate embedding: '') E"
      "map err_memoryId E = failed_ids w1 (length (AI_log w1)) ms"
    unfolding failed_ids_zip by blast
  from E(1) embedding_errors_all [OF E(2)] E(3)
  show "\<exists>E. errs2 = errs @ E \<and> filter is_embedding_error E = E
         \<and> map err_memoryId E = failed_ids w1 (length (AI_log w1)) ms"
    by blast
qed

lemma upsert_effect:
  assumes "VECTORIZE_upsert vs w2 = (r, w')"
  shows "AI_log w' = AI_log w2" "VECTORIZE_log w' = VECTORIZE_log w2 @ [Upsert vs]"
    "AI_replies w' = AI_replies w2" "VECTORIZE_faults w' = VECTORIZE_faults w2"
    "isl r \<Longrightarrow> index_ids w' = index_ids w2"
    "r = Inr () \<Longrightarrow> index_ids w' = index_ids w2 \<union> set (map v_id vs)"
    "isl r = (VECTORIZE_faults w2 (length (VECTORIZE_log w2)) \<noteq> None)"
proof -
  show "AI_log w' = AI_log w2" "VECTORIZE_log w' = VECTORIZE_log w2 @ [Upsert vs]"
    "isl r = (VECTORIZE_faults w2 (length (VECTORIZE_log w2)) \<noteq> None)"
    by (rule upsert_world [OF assms])+
  show "AI_replies w' = AI_replies w2" "VECTORIZE_faults w' = VECTORIZE_faults w2"
    by (rule upsert_services [OF assms])+
  show "isl r \<Longrightarrow> index_ids w' = index_ids w2"
    unfolding index_ids_def by (simp add: upsert_stores(3) [OF assms])
  show "r = Inr () \<Longrightarrow> index_ids w' = index_ids w2 \<union> set (map v_id vs)"
    unfolding index_ids_def by (simp add: upsert_stores(2) [OF assms])
qed

lemma chunk_embed_effect:
  assumes g: "VECTORIZE_getByIds (map r_id chunk) w = (Inr existing, w1)"
    and e: "embed_missing userId ms [] errs w1 = (vs, errs2, w2)"
  shows "index_ids w2 = index_ids w" "AI_log w2 = AI_log w @ map r_content ms"
    "VECTORIZE_log w2 = VECTORIZE_log w @ [GetByIds (map r_id chunk)]"
    "AI_replies w2 = AI_replies w" "VECTORIZE_faults w2 = VECTORIZE_faults w"
    "map v_id vs = embedded_ids w (length (AI_log w)) ms"
    "\<exists>E. errs2 = errs @ E \<and> filter is_embedding_error E = E
         \<and> map err_memoryId E = failed_ids w (length (AI_log w)) ms"
proof -
  note g = getByIds_effect [OF g]
  note e = embed_missing_effect [OF e]
  show "index_ids w2 = index_ids w" using e(1) g(1) by simp
  show "AI_log w2 = AI_log w @ map r_content ms" using e(2) g(2) by simp
  show "VECTORIZE_log w2 = VECTORIZE_log w @ [GetByIds (map r_id chunk)]" using e(3) g(3) by simp
  show "AI_replies w2 = AI_replies w" using e(4) g(4) by simp
  show "VECTORIZE_faults w2 = VECTORIZE_faults w" using e(5) g(5) by simp
  show "map v_id vs = embedded_ids w (length (AI_log w)) ms"
    using e(6) by (simp only: g(2) embedded_ids_cong [OF g(4)])
  show "\<exists>E. errs2 = errs @ E \<and> filter is_embedding_error E = E
         \<and> map err_memoryId E = failed_ids w (length (AI_log w)) ms"
    using e(7) by (simp only: g(2) failed_ids_cong [OF g(4)])
qed

lemma restore_chunk_effect:
  assumes "restore_chunk userId chunk (rest, errs, w) = (rest', errs', w')"
  shows "\<exists>att calls E. chunk_effect w w' [chunk] att calls E \<and> errs' = errs @ E
           \<and> rest' = rest + length (successful_upserts (VECTORIZE_faults w)
                                     (length (VECTORIZE_log w)) calls)"
proof -
  define chunk_errors where "chunk_errors = (\<lambda>e. map (\<lambda>memory.
      \<lparr>err_memoryId = r_id memory,
       err_error = ''Chunk processing failed: '' @ errorMessage e\<rparr>) chunk)"
  define check where "check = GetByIds (map r_id chunk)"
  define gained where "gained = (\<lambda>calls. length (successful_upserts (VECTORIZE_faults w)
                                     (length (VECTORIZE_log w)) calls))"
  have ce: "error_ids (chunk_errors e) = row_ids chunk"
    "filter is_embedding_error (chunk_errors e) = []" for e
    unfolding chunk_errors_def by (rule chunk_errors_ids chunk_errors_not_embedding)+
  obtain r rest1 errs1 wt where t0: "chunk_try userId chunk (rest, errs, w) = (r, rest1, errs1, wt)"
    by (cases "chunk_try userId chunk (rest, errs, w)") auto
  from t0 assms have fin: "rest' = rest1" "w' = wt"
    "errs' = errs1 @ (case r of Inl e \<Rightarrow> chunk_errors e | Inr u \<Rightarrow> [])"
    by (cases r; simp add: restore_chunk_def chunk_errors_def)+
  from t0 fin(2) have t: "chunk_try userId chunk (rest, errs, w) = (r, rest1, errs1, w')"
    by simp
  have "\<exists>att calls E. chunk_effect w w' [chunk] att calls E \<and> errs' = errs @ E
           \<and> rest' = rest + gained calls"
    using t
  proof (cases rule: chunk_try_cases)
    case (check_failed e)
    note g = getByIds_effect [OF check_failed(1)]
    have "chunk_effect w w' [chunk] [] [check] (chunk_errors e)"
      by (rule chunk_effectI) (simp_all add: g ce check_def)
    moreover have "errs' = errs @ chunk_errors e"
      using fin(3) check_failed by simp
    moreover have "rest' = rest + gained [check]"
      using fin(1) check_failed by (simp add: gained_def check_def)
    ultimately show ?thesis by blast
  next
    case (none_missing existing)
    note g = getByIds_effect [OF none_missing(1)]
    note m = getByIds_missing [OF none_missing(1)]
    have "chunk_effect w w' [chunk] [] [check] []"
      by (rule chunk_effectI) (use m(3) in \<open>simp_all add: g none_missing(2) check_def\<close>)
    moreover have "errs' = errs @ []"
      using fin(3) none_missing by simp
    moreover have "rest' = rest + gained [check]"
      using fin(1) none_missing by (simp add: gained_def check_def)
    ultimately show ?thesis by blast
  next
    case (none_embedded existing w1)
    define M where "M = missing_memories existing chunk"
    note m = getByIds_missing [OF none_embedded(1), folded M_def]
    note e = chunk_embed_effect [OF none_embedded(1) none_embedded(3), folded M_def]
    from e(7) obtain E where E: "errs1 = errs @ E" "filter is_embedding_error E = E"
      "map err_memoryId E = failed_ids w (length (AI_log w)) M"
      by blast
    have 3: "row_ids (concat [chunk]) \<subseteq> index_ids w \<union> row_ids M \<union> error_ids E"
      using m(3) by auto
    have 10: "map v_id (all_upserts [check]) = embedded_ids w (length (AI_log w)) M"
      using e(6) by (simp add: check_def)
    have "chunk_effect w w' [chunk] M [check] E"
      by (rule chunk_effectI)
        (use m(1,2) 3 10 in \<open>simp_all add: e(1-5) E(2,3) check_def\<close>)
    moreover have "errs' = errs @ E"
      using fin(3) none_embedded E(1) by simp
    moreover have "rest' = rest + gained [check]"
      using fin(1) none_embedded by (simp add: gained_def check_def)
    ultimately show ?thesis by blast
  next
    case (upsert_failed existing w1 vs w2 e)
    define M where "M = missing_memories existing chunk"
    note m = getByIds_missing [OF upsert_failed(1), folded M_def]
    note e = chunk_embed_effect [OF upsert_failed(1) upsert_failed(3), folded M_def]
    note u = upsert_effect [OF upsert_failed(5)]
    from e(7) obtain E where E: "errs1 = errs @ E" "filter is_embedding_error E = E"
      "map err_memoryId E = failed_ids w (length (AI_log w)) M"
      by blast
    have i: "index_ids w' = index_ids w" using u(5) e(1) by simp
    have f: "VECTORIZE_faults w (Suc (length (VECTORIZE_log w))) \<noteq> None"
      using u(7) by (simp add: e(3,5))
    have 3: "row_ids (concat [chunk])
               \<subseteq> index_ids w \<union> row_ids M \<union> error_ids (E @ chunk_errors e)"
      using m(3) by auto
    have 7: "map err_memoryId (filter is_embedding_error (E @ chunk_errors e))
               = failed_ids w (length (AI_log w)) M"
      using E(2,3) by (simp add: ce)
    have 10: "map v_id (all_upserts [check, Upsert vs]) = embedded_ids w (length (AI_log w)) M"
      using e(6) by (simp add: check_def)
    have "chunk_effect w w' [chunk] M [check, Upsert vs] (E @ chunk_errors e)"
      by (rule chunk_effectI)
        (use m(1,2) 3 7 10 in \<open>simp_all add: i u(1-4) e(2-5) check_def\<close>)
    moreover have "errs' = errs @ E @ chunk_errors e"
      using fin(3) upsert_failed E(1) by simp
    moreover have "rest' = rest + gained [check, Upsert vs]"
      using fin(1) upsert_failed f by (simp add: gained_def check_def)
    ultimately show ?thesis by blast
  next
    case (upserted existing w1 vs w2)
    define M where "M = missing_memories existing chunk"
    note m = getByIds_missing [OF upserted(1), folded M_def]
    note e = chunk_embed_effect [OF upserted(1) upserted(3), folded M_def]
    note u = upsert_effect [OF upserted(5)]
    from e(7) obtain E where E: "errs1 = errs @ E" "filter is_embedding_error E = E"
      "map err_memoryId E = failed_ids w (length (AI_log w)) M"
      by blast
    have "set (map v_id vs) \<subseteq> row_ids M"
      unfolding e(6) row_ids_def by (rule embedded_ids_subset)
    moreover have "index_ids w' = index_ids w \<union> set (map v_id vs)"
      using u(6) e(1) by simp
    ultimately have 4: "index_ids w \<subseteq> index_ids w'"
      and 5: "index_ids w' \<subseteq> index_ids w \<union> row_ids M"
      by auto
    have f: "VECTORIZE_faults w (Suc (length (VECTORIZE_log w))) = None"
      using u(7) by (simp add: e(3,5))
    have 3: "row_ids (concat [chunk]) \<subseteq> index_ids w \<union> row_ids M \<union> error_ids E"
      using m(3) by auto
    have 10: "map v_id (all_upserts [check, Upsert vs]) = embedded_ids w (length (AI_log w)) M"
      using e(6) by (simp add: check_def)
    have "chunk_effect w w' [chunk] M [check, Upsert vs] E"
      by (rule chunk_effectI)
        (use m(1,2) 3 4 5 10 in \<open>simp_all add: u(1-4) e(2-5) E(2,3) check_def\<close>)
    moreover have "errs' = errs @ E"
      using fin(3) upserted E(1) by simp
    moreover have "rest' = rest + gained [check, Upsert vs]"
      using fin(1) upserted f by (simp add: gained_def check_def)
    ultimately show ?thesis by blast
  qed
  then show ?thesis unfolding gained_def .
qed

lemma restore_chunks_effect:
  assumes "restore_chunks userId cs (rest, errs, w) = (rest', errs', w')"
  shows "\<exists>att calls E. chunk_effect w w' cs att calls E \<and> errs' = errs @ E
           \<and> rest' = rest + length (successful_upserts (VECTORIZE_faults w)
                                     (length (VECTORIZE_log w)) calls)"
  using assms
proof (induction cs arbitrary: rest errs w)
  case Nil
  then have "chunk_effect w w' [] [] [] []" "errs' = errs @ []"
    "rest' = rest + length (successful_upserts (VECTORIZE_faults w) (length (VECTORIZE_log w)) [])"
    by (simp_all add: chunk_effect_refl)
  then show ?case by blast
next
  case (Cons c cs)
  obtain rest1 errs1 w1 where c: "restore_chunk userId c (rest, errs, w) = (rest1, errs1, w1)"
    by (cases "restore_chunk userId c (rest, errs, w)") auto
  from restore_chunk_effect [OF c] obtain a1 c1 E1 where
    1: "chunk_effect w w1 [c] a1 c1 E1" "errs1 = errs @ E1"
       "rest1 = rest + length (successful_upserts (VECTORIZE_faults w)
                                 (length (VECTORIZE_log w)) c1)"
    by blast
  from Cons.prems c have "restore_chunks userId cs (rest1, errs1, w1) = (rest', errs', w')"
    by simp
  from Cons.IH [OF this] obtain a2 c2 E2 where
    2: "chunk_effect w1 w' cs a2 c2 E2" "errs' = errs1 @ E2"
       "rest' = rest1 + length (successful_upserts (VECTORIZE_faults w1)
                                  (length (VECTORIZE_log w1)) c2)"
    by blast
  note d = chunk_effectD [OF 1(1)]
  from chunk_effect_trans [OF 1(1) 2(1)]
  have "chunk_effect w w' (c # cs) (a1 @ a2) (c1 @ c2) (E1 @ E2)" by simp
  moreover have "errs' = errs @ E1 @ E2" using 1(2) 2(2) by simp
  moreover have "rest' = rest + length (successful_upserts (VECTORIZE_faults w)
                                     (length (VECTORIZE_log w)) (c1 @ c2))"
    using 1(3) 2(3) by (simp add: successful_upserts_append d(8) d(12))
  ultimately show ?case by blast
qed

lemma getAllMemoriesFromD1_cases:
  assumes "getAllMemoriesFromD1 userId w = (r, w1)"
  shows "isl r = (DB_faults w (DB_calls w) \<noteq> None)"
  using assms by (auto simp: getAllMemoriesFromD1_def Let_def split: option.splits)

lemma unknown_not_embedding:
  "\<not> is_embedding_error
       \<lparr>err_memoryId = i, err_error = ''Failed to get memories from D1: '' @ x\<rparr>"
  by (simp add: is_embedding_error_def startsWith_iff)

lemma reconcile_effect:
  assumes "restoreMissingMemoriesToVectorize userId w = (Inr result, w')"
  shows "\<exists>att calls.
           chunk_effect w w'
             (chunks_of (if DB_faults w (DB_calls w) = None
                         then filter (\<lambda>r. r_userId r = userId) (memories w) else []))
             att calls (errors result)
           \<and> restored result = length (successful_upserts (VECTORIZE_faults w)
                                        (length (VECTORIZE_log w)) calls)"
proof -
  obtain g w0 where g: "getAllMemoriesFromD1 userId w = (g, w0)"
    by (cases "getAllMemoriesFromD1 userId w")
  note w0 = getAllMemoriesFromD1_result(1) [OF g]
  have start: "chunk_effect w w0 [] [] [] []"
    by (simp add: chunk_effect_def w0 index_ids_def)
  have same: "VECTORIZE_faults w0 = VECTORIZE_faults w" "VECTORIZE_log w0 = VECTORIZE_log w"
    by (simp_all add: w0)
  show ?thesis
  proof (cases g)
    case (Inl e)
    with getAllMemoriesFromD1_cases [OF g] have f: "DB_faults w (DB_calls w) \<noteq> None" by simp
    from Inl g assms have r: "w' = w0"
      "result = \<lparr>restored = 0, errors = [\<lparr>err_memoryId = ''unknown'',
          err_error = ''Failed to get memories from D1: '' @ errorMessage e\<rparr>]\<rparr>"
      by (simp_all add: restoreMissingMemoriesToVectorize_def restore_try_def)
    have "chunk_effect w w' [] [] [] (errors result)"
      by (simp add: chunk_effect_def r w0 index_ids_def unknown_not_embedding [simplified])
    moreover have "restored result = length (successful_upserts (VECTORIZE_faults w)
                                        (length (VECTORIZE_log w)) [])"
      by (simp add: r)
    moreover have "chunks_of (if DB_faults w (DB_calls w) = None
                         then filter (\<lambda>r. r_userId r = userId) (memories w) else []) = []"
      using f by auto
    ultimately show ?thesis by (simp only:) blast
  next
    case (Inr mems)
    with getAllMemoriesFromD1_cases [OF g] have f: "DB_faults w (DB_calls w) = None" by simp
    from Inr getAllMemoriesFromD1_result(2) [OF g]
    have mems: "mems = filter (\<lambda>r. r_userId r = userId) (memories w)" by simp
    have run: "restore_chunks userId (chunks_of mems) (0, [], w0)
                 = (restored result, errors result, w')"
    proof (cases "mems = []")
      case True
      with Inr g assms have "result = \<lparr>restored = 0, errors = []\<rparr>" "w' = w0"
        by (auto simp: restoreMissingMemoriesToVectorize_def restore_try_def)
      with True show ?thesis by simp
    next
      case False
      obtain rest errs w2 where
        c: "restore_chunks userId (chunks_of mems) (0, [], w0) = (rest, errs, w2)"
        by (cases "restore_chunks userId (chunks_of mems) (0, [], w0)") auto
      with False Inr g assms have "result = \<lparr>restored = rest, errors = errs\<rparr>" "w' = w2"
        by (simp_all add: restoreMissingMemoriesToVectorize_def restore_try_def)
      with c show ?thesis by simp
    qed
    from restore_chunks_effect [OF run] obtain att calls E where
      e: "chunk_effect w0 w' (chunks_of mems) att calls E" "errors result = [] @ E"
         "restored result = 0 + length (successful_upserts (VECTORIZE_faults w0)
                                          (length (VECTORIZE_log w0)) calls)"
      by blast
    from chunk_effect_trans [OF start e(1)] e(2)
    have "chunk_effect w w' (chunks_of mems) att calls (errors result)" by simp
    moreover from e(3) have "restored result = length (successful_upserts (VECTORIZE_faults w)
                                        (length (VECTORIZE_log w)) calls)"
      by (simp add: same)
    moreover have "(if DB_faults w (DB_calls w) = None
                    then filter (\<lambda>r. r_userId r = userId) (memories w) else []) = mems"
      using f mems by simp
    ultimately show ?thesis by (simp only:) blast
  qed
qed

lemma row_idsI: "m \<in> set rows \<Longrightarrow> r_id m \<in> row_ids rows"
  unfolding row_ids_def by (rule imageI)

text \<open>
  C6. A reconcile call, with \<open>rows\<close> the memories the relational store returned for the
  user (none when the read failed): the call makes one existence check per chunk of
  \<open>rows\<close>, in order, and one embedding call per memory of a list \<open>attempted\<close>, in
  order; \<open>attempted\<close> is taken from \<open>rows\<close> without repetition or reordering, none of
  its memories had a vector, and every memory of \<open>rows\<close> had a vector, is in
  \<open>attempted\<close> or has an entry in the returned \<open>errors\<close>. The entries of \<open>errors\<close>
  whose reason is an embedding failure are, in order, exactly the memories whose embedding
  call failed; the vectors of the batch upserts are, in order, exactly the memories whose
  embedding call succeeded; and \<open>restored\<close> is the number of vectors in the batch
  upserts that did not throw.
\<close>

theorem C6_embedding_failure_recorded_and_excluded:
  assumes "restoreMissingMemoriesToVectorize userId w = (Inr result, w')"
  shows "\<exists>attempted.
         let rows = (if DB_faults w (DB_calls w) = None
                       then filter (\<lambda>r. r_userId r = userId) (memories w) else []);
             first = length (AI_log w);
             calls = zip attempted [first..<first + length attempted];
             failed = filter (\<lambda>(m, k). embedding_fails w k) calls;
             embedded = filter (\<lambda>(m, k). \<not> embedding_fails w k) calls;
             requests = drop (length (VECTORIZE_log w)) (VECTORIZE_log w');
             embedding_errors =
               filter (\<lambda>e. startsWith (err_error e) ''Failed to generate embedding: '')
                 (errors result)
         in subseq attempted rows
            \<and> list_all (\<lambda>m. r_id m \<notin> v_id ` set (vindex w)) attempted
            \<and> list_all (\<lambda>m. r_id m \<in> v_id ` set (vindex w)
                              \<or> r_id m \<in> r_id ` set attempted
                              \<or> r_id m \<in> err_memoryId ` set (errors result)) rows
            \<and> AI_log w' = AI_log w @ map r_content attempted
            \<and> take (length (VECTORIZE_log w)) (VECTORIZE_log w') = VECTORIZE_log w
            \<and> existence_checks requests = map (map r_id) (chunks_of rows)
            \<and> map err_memoryId embedding_errors = map (r_id \<circ> fst) failed
            \<and> map v_id (all_upserts requests) = map (r_id \<circ> fst) embedded
            \<and> restored result = length (successful_upserts (VECTORIZE_faults w)
                                      (length (VECTORIZE_log w)) requests)"
proof -
  define rows where "rows = (if DB_faults w (DB_calls w) = None
                       then filter (\<lambda>r. r_userId r = userId) (memories w) else [])"
  from reconcile_effect [OF assms, folded rows_def] obtain att calls where
    e: "chunk_effect w w' (chunks_of rows) att calls (errors result)"
    and 9: "restored result = length (successful_upserts (VECTORIZE_faults w)
                                        (length (VECTORIZE_log w)) calls)"
    by blast
  note d = chunk_effectD [OF e]
  have req: "drop (length (VECTORIZE_log w)) (VECTORIZE_log w') = calls"
    using d(8) by simp
  have ie: "is_embedding_error
              = (\<lambda>e. startsWith (err_error e) ''Failed to generate embedding: '')"
    by (rule ext) (simp only: is_embedding_error_def)
  have 1: "subseq att rows" using d(1) by (simp only: concat_chunks_of)
  have "\<forall>m \<in> set att. r_id m \<notin> index_ids w"
    using d(2) row_idsI [of _ att] by blast
  then have 2: "list_all (\<lambda>m. r_id m \<notin> v_id ` set (vindex w)) att"
    unfolding list_all_iff index_ids_def .
  have "\<forall>m \<in> set rows. r_id m \<in> index_ids w \<or> r_id m \<in> row_ids att
                          \<or> r_id m \<in> error_ids (errors result)"
    using d(3) row_idsI [of _ rows] unfolding concat_chunks_of by blast
  then have 3: "list_all (\<lambda>m. r_id m \<in> v_id ` set (vindex w)
                              \<or> r_id m \<in> r_id ` set att
                              \<or> r_id m \<in> err_memoryId ` set (errors result)) rows"
    unfolding list_all_iff index_ids_def row_ids_def error_ids_def .
  have 4: "AI_log w' = AI_log w @ map r_content att" by (rule d(6))
  have 5: "take (length (VECTORIZE_log w)) (VECTORIZE_log w') = VECTORIZE_log w"
    using d(8) by simp
  have 6: "existence_checks calls = map (map r_id) (chunks_of rows)" by (rule d(9))
  have 7: "map err_memoryId
             (filter (\<lambda>e. startsWith (err_error e) ''Failed to generate embedding: '')
                (errors result))
           = map (r_id \<circ> fst) (filter (\<lambda>(m, k). embedding_fails w k)
               (zip att [length (AI_log w)..<length (AI_log w) + length att]))"
    using d(7) unfolding failed_ids_zip ie .
  have 8: "map v_id (all_upserts calls)
           = map (r_id \<circ> fst) (filter (\<lambda>(m, k). \<not> embedding_fails w k)
               (zip att [length (AI_log w)..<length (AI_log w) + length att]))"
    using d(10) unfolding embedded_ids_zip .
  from 1 2 3 4 5 6 7 8 9 show ?thesis
    unfolding Let_def rows_def [symmetric] req
    by (intro exI [of _ att] conjI)
qed

lemma chunk_world_run:
  "restoreMissingMemoriesToVectorize ''u1'' chunk_world
     = (Inr \<lparr>restored = 1, errors = [\<lparr>err_memoryId = ''b'', err_error = ''Failed to generate embedding: boom''\<rparr>]\<rparr>,
        chunk_world_after\<lparr>DB_calls := 1\<rparr>)"
  by (simp add: restoreMissingMemoriesToVectorize_def restore_try_def getAllMemoriesFromD1_def
      restore_chunk_def chunk_try_def VECTORIZE_getByIds_def missing_memories_def
      generateEmbeddings_def AI_run_def VECTORIZE_upsert_def errorMessage_def CHUNK_SIZE_def
      chunk_world_after_def chunk_world_def Let_def)

theorem C6_embedding_failure_recorded_and_excluded_witness:
  "restoreMissingMemoriesToVectorize ''u1'' chunk_world
     = (Inr \<lparr>restored = 1, errors = [\<lparr>err_memoryId = ''b'', err_error = ''Failed to generate embedding: boom''\<rparr>]\<rparr>,
        chunk_world_after\<lparr>DB_calls := 1\<rparr>)
   \<and> (\<exists>attempted.
         let rows = (if DB_faults chunk_world (DB_calls chunk_world) = None
                       then filter (\<lambda>r. r_userId r = ''u1'') (memories chunk_world) else []);
             first = length (AI_log chunk_world);
             calls = zip attempted [first..<first + length attempted];
             failed = filter (\<lambda>(m, k). embedding_fails chunk_world k) calls;
             embedded = filter (\<lambda>(m, k). \<not> embedding_fails chunk_world k) calls;
             requests = drop (length (VECTORIZE_log chunk_world)) (VECTORIZE_log (chunk_world_after\<lparr>DB_calls := 1\<rparr>));
             embedding_errors =
               filter (\<lambda>e. startsWith (err_error e) ''Failed to generate embedding: '')
                 (errors \<lparr>restored = 1, errors = [\<lparr>err_memoryId = ''b'', err_error = ''Failed to generate embedding: boom''\<rparr>]\<rparr>)
         in subseq attempted rows
            \<and> list_all (\<lambda>m. r_id m \<notin> v_id ` set (vindex chunk_world)) attempted
            \<and> list_all (\<lambda>m. r_id m \<in> v_id ` set (vindex chunk_world)
                              \<or> r_id m \<in> r_id ` set attempted
                              \<or> r_id m \<in> err_memoryId ` set (errors \<lparr>restored = 1, errors = [\<lparr>err_memoryId = ''b'', err_error = ''Failed to generate embedding: boom''\<rparr>]\<rparr>)) rows
            \<and> AI_log (chunk_world_after\<lparr>DB_calls := 1\<rparr>) = AI_log chunk_world @ map r_content attempted
            \<and> take (length (VECTORIZE_log chunk_world)) (VECTORIZE_log (chunk_world_after\<lparr>DB_calls := 1\<rparr>)) = VECTORIZE_log chunk_world
            \<and> existence_checks requests = map (map r_id) (chunks_of rows)
            \<and> map err_memoryId embedding_errors = map (r_id \<circ> fst) failed
            \<and> map v_id (all_upserts requests) = map (r_id \<circ> fst) embedded
            \<and> restored \<lparr>restored = 1, errors = [\<lparr>err_memoryId = ''b'', err_error = ''Failed to generate embedding: boom''\<rparr>]\<rparr> = length (successful_upserts (VECTORIZE_faults chunk_world)
                                      (length (VECTORIZE_log chunk_world)) requests))
   \<and> AI_log (chunk_world_after\<lparr>DB_calls := 1\<rparr>) = [''B'', ''C'']
   \<and> map v_id (all_upserts (VECTORIZE_log (chunk_world_after\<lparr>DB_calls := 1\<rparr>))) = [''c'']"
proof -
  have "AI_log (chunk_world_after\<lparr>DB_calls := 1\<rparr>) = [''B'', ''C'']"
    "map v_id (all_upserts (VECTORIZE_log (chunk_world_after\<lparr>DB_calls := 1\<rparr>))) = [''c'']"
    by (simp_all add: chunk_world_after_def)
  with C6_embedding_failure_recorded_and_excluded [OF chunk_world_run] chunk_world_run
  show ?thesis by (intro conjI)
qed

section \<open>Decomposition\<close>

lemma paragraph_sections_length: "length (paragraph_sections index ps) = length ps"
  by (induction ps arbitrary: index) simp_all

lemma paragraph_sections_nth:
  "i < length ps \<Longrightarrow>
     paragraph_sections index ps ! i
       = \<lparr>ps_title = ''Part '' @ decimal (index + i + 1), ps_content = trim (ps ! i),
          ps_type = ''chunk''\<rparr>"
proof (induction ps arbitrary: index i)
  case Nil
  then show ?case by simp
next
  case (Cons p ps)
  show ?case
  proof (cases i)
    case 0
    then show ?thesis by simp
  next
    case (Suc j)
    with Cons.prems have "j < length ps" by simp
    from Cons.IH [OF this, of "index + 1"] Suc show ?thesis by simp
  qed
qed

lemma split_from_nonempty: "split_from sep cur s \<noteq> []"
  by (induction sep cur s rule: split_from.induct) auto

lemma join_Cons: "ps \<noteq> [] \<Longrightarrow> join sep (p # ps) = p @ sep @ join sep ps"
  by (cases ps) simp_all

lemma join_split_from: "join sep (split_from sep cur s) = cur @ s"
proof (induction sep cur s rule: split_from.induct)
  case (1 sep cur)
  then show ?case by simp
next
  case (2 sep cur c cs)
  show ?case
  proof (cases "sep \<noteq> [] \<and> startsWith (c # cs) sep")
    case True
    then obtain post where p: "c # cs = sep @ post" by (auto simp: startsWith_iff)
    then have d: "drop (length sep) (c # cs) = post" by simp
    from True 2(1) d have i: "join sep (split_from sep [] post) = post"
      by simp
    from True d have "split_from sep cur (c # cs) = cur # split_from sep [] post"
      by (simp del: drop_Suc_Cons)
    then have "join sep (split_from sep cur (c # cs)) = cur @ sep @ post"
      using i by (simp add: join_Cons split_from_nonempty)
    with p show ?thesis by simp
  next
    case False
    with 2(2) show ?thesis by auto
  qed
qed

lemma join_split_on: "join sep (split_on sep s) = s"
  by (simp add: split_on_def join_split_from)

text \<open>
  C8, as the code has it. When the header split leaves at most one non-blank piece and
  the PRD patterns give no section (the type is not PRD, or no pattern matches), the raw
  text is cut at every blank-line boundary \<open>\n\n\<close> (joining the pieces with \<open>\n\n\<close> gives the
  text back), the paragraphs whose trimmed length exceeds 50 are kept, and the sections
  are these paragraphs in order, trimmed, titled Part 1, Part 2, ...; when no paragraph is
  kept the result is the single section Complete Document.
\<close>

theorem C8_paragraph_fallback:
  assumes "length (headerSections rawText) \<le> 1"
      and "docType = ''PRD'' \<longrightarrow> prd_sections rawText = []"
  shows "let paragraphs = split_on [CHR 0x0A, CHR 0x0A] rawText;
             kept = filter (\<lambda>p. 50 < length (trim p)) paragraphs;
             sections = parseDocumentSections rawText docType
         in join [CHR 0x0A, CHR 0x0A] paragraphs = rawText
            \<and> (if kept = []
                then sections = [\<lparr>ps_title = ''Complete Document'', ps_content = rawText,
                                  ps_type = ''full''\<rparr>]
                else length sections = length kept
                     \<and> (\<forall>i < length kept.
                           sections ! i = \<lparr>ps_title = ''Part '' @ decimal (i + 1),
                                            ps_content = trim (kept ! i), ps_type = ''chunk''\<rparr>))"
proof -
  define kept where "kept = filter (\<lambda>p. 50 < length (trim p)) (split_on [CHR 0x0A, CHR 0x0A] rawText)"
  from assms have p: "parseDocumentSections rawText docType =
      (if paragraph_sections 0 kept = []
       then [\<lparr>ps_title = ''Complete Document'', ps_content = rawText, ps_type = ''full''\<rparr>]
       else paragraph_sections 0 kept)"
    by (auto simp: parseDocumentSections_def Let_def kept_def)
  have e: "paragraph_sections 0 kept = [] \<longleftrightarrow> kept = []"
    using paragraph_sections_length [of 0 kept] by (metis length_0_conv)
  show ?thesis
    unfolding Let_def kept_def [symmetric] p e
    by (simp add: join_split_on paragraph_sections_length paragraph_sections_nth)
qed

lemma two_paragraphs_headers: "length (headerSections two_paragraphs) \<le> 1"
  by code_simp

lemma two_paragraphs_sections:
  "parseDocumentSections two_paragraphs ''Documentation''
     = [\<lparr>ps_title = ''Part 1'',
         ps_content = ''aaaaaaaaaaaaaaaaaaaaaaaaaaaaaaaaaaaaaaaaaaaaaaaaaaaaaaaaaaaaaaaaaaaaaaaaaaaaaaaa'',
         ps_type = ''chunk''\<rparr>,
        \<lparr>ps_title = ''Part 2'',
         ps_content = ''bbbbbbbbbbbbbbbbbbbbbbbbbbbbbbbbbbbbbbbbbbbbbbbbbbbbbbbbbbbbbbbbbbbbbbbbbbbbbbbb'',
         ps_type = ''chunk''\<rparr>]"
  by code_simp

lemma two_paragraphs_type: "finalDocType None two_paragraphs = ''Documentation''"
  by code_simp

theorem C8_paragraph_fallback_witness:
  "length (headerSections two_paragraphs) \<le> 1
   \<and> ''Documentation'' \<noteq> ''PRD''
   \<and> finalDocType None two_paragraphs = ''Documentation''
   \<and> parseDocumentSections two_paragraphs ''Documentation''
     = [\<lparr>ps_title = ''Part 1'',
         ps_content = ''aaaaaaaaaaaaaaaaaaaaaaaaaaaaaaaaaaaaaaaaaaaaaaaaaaaaaaaaaaaaaaaaaaaaaaaaaaaaaaaa'',
         ps_type = ''chunk''\<rparr>,
        \<lparr>ps_title = ''Part 2'',
         ps_content = ''bbbbbbbbbbbbbbbbbbbbbbbbbbbbbbbbbbbbbbbbbbbbbbbbbbbbbbbbbbbbbbbbbbbbbbbbbbbbbbbb'',
         ps_type = ''chunk''\<rparr>]
   \<and> (let paragraphs = split_on [CHR 0x0A, CHR 0x0A] two_paragraphs;
           kept = filter (\<lambda>p. 50 < length (trim p)) paragraphs;
           sections = parseDocumentSections two_paragraphs ''Documentation''
       in join [CHR 0x0A, CHR 0x0A] paragraphs = two_paragraphs
          \<and> (if kept = []
              then sections = [\<lparr>ps_title = ''Complete Document'', ps_content = two_paragraphs,
                                ps_type = ''full''\<rparr>]
              else length sections = length kept
                   \<and> (\<forall>i < length kept.
                         sections ! i = \<lparr>ps_title = ''Part '' @ decimal (i + 1),
                                          ps_content = trim (kept ! i), ps_type = ''chunk''\<rparr>)))"
proof -
  have t: "''Documentation'' \<noteq> ''PRD''" by simp
  then have h: "''Documentation'' = ''PRD'' \<longrightarrow> prd_sections two_paragraphs = []" by simp
  from C8_paragraph_fallback [OF two_paragraphs_headers h] two_paragraphs_headers t
    two_paragraphs_sections two_paragraphs_type
  show ?thesis by (intro conjI)
qed

text \<open>
  C8 as stated fails in two places. A document whose header split yields two pieces
  without bodies gives no section in the header step, is not of type PRD, and is one
  paragraph of 74 characters; the result is Complete Document, not Part 1. And a
  paragraph of 55 characters, 45 letters and 10 trailing spaces, is not kept: only the
  second paragraph becomes a section.
\<close>

theorem C8_counterexample:
  "header_sections 0 (headerSections headers_without_bodies) = []
   \<and> map length (split_on [CHR 0x0A, CHR 0x0A] headers_without_bodies) = [74]
   \<and> parseDocumentSections headers_without_bodies ''Documentation''
       = [\<lparr>ps_title = ''Complete Document'', ps_content = headers_without_bodies,
           ps_type = ''full''\<rparr>]
   \<and> length (headerSections padded_paragraphs) = 1
   \<and> map length (split_on [CHR 0x0A, CHR 0x0A] padded_paragraphs) = [55, 80]
   \<and> map ps_title (parseDocumentSections padded_paragraphs ''Documentation'') = [''Part 1'']
   \<and> map (length \<circ> ps_content) (parseDocumentSections padded_paragraphs ''Documentation'') = [80]"
  by code_simp

section \<open>The store path\<close>

lemma storeMemory_stores:
  assumes "storeMemory body userId w = (r, w')"
  shows "memories w' = memories w"
    and "v_id ` set (vindex w) \<subseteq> v_id ` set (vindex w')"
    and "r = Inr memoryId \<Longrightarrow> memoryId \<in> v_id ` set (vindex w')"
proof -
  obtain memoryId' w1 where u: "uuidv4 w = (memoryId', w1)" by (cases "uuidv4 w")
  then have w1: "memories w1 = memories w" "vindex w1 = vindex w"
    by (auto simp: uuidv4_def)
  obtain g w2 where g: "generateEmbeddings body w1 = (g, w2)"
    by (cases "generateEmbeddings body w1")
  with generateEmbeddings_world [of body w1]
  have w2: "memories w2 = memories w" "vindex w2 = vindex w"
    using w1 by simp_all
  have "memories w' = memories w \<and> v_id ` set (vindex w) \<subseteq> v_id ` set (vindex w')
        \<and> (r = Inr memoryId \<longrightarrow> memoryId \<in> v_id ` set (vindex w'))"
  proof (cases g)
    case (Inl e)
    with u g assms w2 show ?thesis by (auto simp: storeMemory_def)
  next
    case (Inr vals)
    define entry where "entry = \<lparr>v_id = memoryId', v_values = vals, v_namespace = userId,
        v_metadata = [(''content'', body), (''type'', ''memory'')]\<rparr>"
    obtain p w3 where p: "VECTORIZE_upsert [entry] w2 = (p, w3)"
      by (cases "VECTORIZE_upsert [entry] w2")
    note s = upsert_stores [OF p]
    show ?thesis
    proof (cases p)
      case (Inl e)
      with u g Inr p assms have "w' = w3" "isl r"
        by (auto simp: storeMemory_def entry_def)
      with s(1) s(3) Inl w2 show ?thesis by auto
    next
      case inr: (Inr un)
      with u g Inr p assms have "w' = w3" "r = Inr memoryId'"
        by (auto simp: storeMemory_def entry_def)
      moreover from s(2) inr w2
      have "v_id ` set (vindex w3) = v_id ` set (vindex w) \<union> {memoryId'}"
        by (simp add: entry_def)
      ultimately show ?thesis using s(1) w2 by auto
    qed
  qed
  then show "memories w' = memories w"
    and "v_id ` set (vindex w) \<subseteq> v_id ` set (vindex w')"
    and "r = Inr memoryId \<Longrightarrow> memoryId \<in> v_id ` set (vindex w')"
    by simp_all
qed

lemma storeMemoryInD1_stores:
  assumes "storeMemoryInD1 content userId (Some memoryId) w = (r, w')"
  shows "vindex w' = vindex w"
    and "r_id ` set (memories w') \<subseteq> insert memoryId (r_id ` set (memories w))"
  using assms
  by (auto simp: storeMemoryInD1_def DB_insert_def Let_def split: option.splits if_splits)

text \<open>The order of the two writes: every row has its vector.\<close>

lemma store_pair_keeps_rows_in_index:
  assumes inv: "r_id ` set (memories w) \<subseteq> v_id ` set (vindex w)"
      and s: "storeMemory body userId w = (Inr memoryId, w1)"
      and d: "storeMemoryInD1 body userId (Some memoryId) w1 = (r, w2)"
  shows "r_id ` set (memories w2) \<subseteq> v_id ` set (vindex w2)"
proof -
  note a = storeMemory_stores [OF s]
  note b = storeMemoryInD1_stores [OF d]
  from a(3) have m: "memoryId \<in> v_id ` set (vindex w1)" by simp
  from inv a(1) a(2) have "r_id ` set (memories w1) \<subseteq> v_id ` set (vindex w1)" by auto
  with m have "insert memoryId (r_id ` set (memories w1)) \<subseteq> v_id ` set (vindex w1)" by simp
  with b(2) have "r_id ` set (memories w2) \<subseteq> v_id ` set (vindex w1)" by (rule order_trans)
  with b(1) show ?thesis by simp
qed

lemma store_vector_only_keeps_rows_in_index:
  assumes inv: "r_id ` set (memories w) \<subseteq> v_id ` set (vindex w)"
      and s: "storeMemory body userId w = (r, w1)"
  shows "r_id ` set (memories w1) \<subseteq> v_id ` set (vindex w1)"
  using storeMemory_stores(1,2) [OF s] inv by auto

lemma add_to_memory_keeps_rows_in_index:
  assumes "r_id ` set (memories w) \<subseteq> v_id ` set (vindex w)"
  shows "r_id ` set (memories (snd (add_to_memory thingToRemember userId w)))
           \<subseteq> v_id ` set (vindex (snd (add_to_memory thingToRemember userId w)))"
proof -
  obtain r w1 where s: "storeMemory thingToRemember userId w = (r, w1)"
    by (cases "storeMemory thingToRemember userId w")
  show ?thesis
  proof (cases r)
    case (Inl e)
    with s store_vector_only_keeps_rows_in_index [OF assms s] show ?thesis
      by (simp add: add_to_memory_def)
  next
    case (Inr memoryId)
    obtain d w2 where d: "storeMemoryInD1 thingToRemember userId (Some memoryId) w1 = (d, w2)"
      by (cases "storeMemoryInD1 thingToRemember userId (Some memoryId) w1")
    from s Inr have s': "storeMemory thingToRemember userId w = (Inr memoryId, w1)" by simp
    from store_pair_keeps_rows_in_index [OF assms s' d] s' d show ?thesis
      by (cases d) (simp_all add: add_to_memory_def)
  qed
qed

lemma clock_read_stores:
  "memories (snd (new_Date_toISOString w)) = memories w"
  "vindex (snd (new_Date_toISOString w)) = vindex w"
  by (simp_all add: new_Date_toISOString_def)

lemma generateMetadata_stores:
  assumes "generateMetadata sec docType projectName priority tags w = (body, w')"
  shows "memories w' = memories w" "vindex w' = vindex w"
  using assms clock_read_stores [of w]
  by (auto simp: generateMetadata_def split: prod.splits)

lemma masterContent_stores:
  assumes "masterContent docType projectName priority tags sections stored w = (body, w')"
  shows "memories w' = memories w" "vindex w' = vindex w"
  using assms clock_read_stores [of w]
  by (auto simp: masterContent_def split: prod.splits)

lemma store_sections_keeps_rows_in_index:
  assumes "r_id ` set (memories w) \<subseteq> v_id ` set (vindex w)"
      and "store_sections docType projectName priority tags userId sections stored n w
             = (stored', n', w')"
  shows "r_id ` set (memories w') \<subseteq> v_id ` set (vindex w')"
  using assms
proof (induction sections arbitrary: stored n w)
  case Nil
  then show ?case by simp
next
  case (Cons sec rest)
  obtain body w1 where m: "generateMetadata sec docType projectName priority tags w = (body, w1)"
    by (cases "generateMetadata sec docType projectName priority tags w")
  from generateMetadata_stores [OF m] Cons.prems(1)
  have i1: "r_id ` set (memories w1) \<subseteq> v_id ` set (vindex w1)" by simp
  obtain r w2 where s: "storeMemory body userId w1 = (r, w2)"
    by (cases "storeMemory body userId w1")
  show ?case
  proof (cases r)
    case (Inl e)
    with m s Cons.prems(2)
    have "store_sections docType projectName priority tags userId rest stored n w2 = (stored', n', w')"
      by simp
    from Cons.IH [OF store_vector_only_keeps_rows_in_index [OF i1 s] this] show ?thesis .
  next
    case (Inr memoryId)
    obtain d w3 where d: "storeMemoryInD1 body userId (Some memoryId) w2 = (d, w3)"
      by (cases "storeMemoryInD1 body userId (Some memoryId) w2")
    from s Inr have s': "storeMemory body userId w1 = (Inr memoryId, w2)" by simp
    note i3 = store_pair_keeps_rows_in_index [OF i1 s' d]
    from m s' d Cons.prems(2) obtain stored1 n1 where
      "store_sections docType projectName priority tags userId rest stored1 n1 w3 = (stored', n', w')"
      by (cases d) auto
    from Cons.IH [OF i3 this] show ?thesis .
  qed
qed

lemma store_master_keeps_rows_in_index:
  assumes "r_id ` set (memories w) \<subseteq> v_id ` set (vindex w)"
  shows "r_id ` set (memories (store_master docType projectName priority tags userId sections stored w))
           \<subseteq> v_id ` set (vindex (store_master docType projectName priority tags userId sections stored w))"
proof -
  obtain body w1 where m: "masterContent docType projectName priority tags sections stored w = (body, w1)"
    by (cases "masterContent docType projectName priority tags sections stored w")
  from masterContent_stores [OF m] assms
  have i1: "r_id ` set (memories w1) \<subseteq> v_id ` set (vindex w1)" by simp
  obtain r w2 where s: "storeMemory body userId w1 = (r, w2)"
    by (cases "storeMemory body userId w1")
  show ?thesis
  proof (cases r)
    case (Inl e)
    with m s store_vector_only_keeps_rows_in_index [OF i1 s] show ?thesis
      by (simp add: store_master_def)
  next
    case (Inr memoryId)
    obtain d w3 where d: "storeMemoryInD1 body userId (Some memoryId) w2 = (d, w3)"
      by (cases "storeMemoryInD1 body userId (Some memoryId) w2")
    from s Inr have s': "storeMemory body userId w1 = (Inr memoryId, w2)" by simp
    from store_pair_keeps_rows_in_index [OF i1 s' d] m s' d show ?thesis
      by (cases d) (simp_all add: store_master_def)
  qed
qed

lemma remember_artifact_keeps_rows_in_index:
  assumes "r_id ` set (memories w) \<subseteq> v_id ` set (vindex w)"
  shows "r_id ` set (memories (snd (remember_artifact thing documentType projectName priority tags userId w)))
           \<subseteq> v_id ` set (vindex (snd (remember_artifact thing documentType projectName priority tags userId w)))"
proof -
  define docType where "docType = finalDocType documentType thing"
  define sections where "sections = parseDocumentSections thing docType"
  obtain stored n w1 where
    l: "store_sections docType projectName priority tags userId sections [] 0 w = (stored, n, w1)"
    by (cases "store_sections docType projectName priority tags userId sections [] 0 w") auto
  note i1 = store_sections_keeps_rows_in_index [OF assms l]
  from l have "snd (remember_artifact thing documentType projectName priority tags userId w)
      = store_master docType projectName priority tags userId sections stored w1"
    by (simp add: remember_artifact_def Let_def docType_def sections_def)
  with store_master_keeps_rows_in_index [OF i1] show ?thesis by simp
qed

lemma run_op_keeps_rows_in_index:
  assumes "r_id ` set (memories w) \<subseteq> v_id ` set (vindex w)"
  shows "r_id ` set (memories (run_op op w)) \<subseteq> v_id ` set (vindex (run_op op w))"
  using assms
  by (cases op) (simp_all add: add_to_memory_keeps_rows_in_index remember_artifact_keeps_rows_in_index)

text \<open>
  C1, as the code has it. The store path writes the vector first and the row second, for
  plain memories, artifact sections and the master index alike. Starting from stores in
  which every row has a vector with its id (empty stores, for one), every sequence of
  store operations, whatever external call fails, leads to stores in which every row has
  a vector with its id: an id is in neither store, in the Vector Index only, or in both,
  and never in the Relational Store only.
\<close>

theorem C1_rows_always_have_vectors:
  assumes "r_id ` set (memories w) \<subseteq> v_id ` set (vindex w)"
  shows "r_id ` set (memories (run_ops ops w)) \<subseteq> v_id ` set (vindex (run_ops ops w))"
  using assms
proof (induction ops arbitrary: w)
  case Nil
  then show ?case by simp
next
  case (Cons op ops)
  from Cons.IH [OF run_op_keeps_rows_in_index [OF Cons.prems]] show ?case by simp
qed

lemma flaky_world_empty: "r_id ` set (memories flaky_world) \<subseteq> v_id ` set (vindex flaky_world)"
  by (simp add: flaky_world_def fresh_world_def)

lemma flaky_world_run:
  "map v_id (vindex (run_ops [AddToMemory ''x'' ''u1'',
                               RememberArtifact two_paragraphs None None None None ''u1'']
                        flaky_world))
     = [''id-0'', ''id-1'', ''id-2'', ''id-3'']
   \<and> map r_id (memories (run_ops [AddToMemory ''x'' ''u1'',
                                    RememberArtifact two_paragraphs None None None None ''u1'']
                             flaky_world))
     = [''id-3'', ''id-2'', ''id-0'']"
  by code_simp

theorem C1_rows_always_have_vectors_witness:
  "r_id ` set (memories flaky_world) \<subseteq> v_id ` set (vindex flaky_world)
   \<and> map v_id (vindex (run_ops [AddToMemory ''x'' ''u1'',
                               RememberArtifact two_paragraphs None None None None ''u1'']
                        flaky_world))
     = [''id-0'', ''id-1'', ''id-2'', ''id-3'']
   \<and> map r_id (memories (run_ops [AddToMemory ''x'' ''u1'',
                                    RememberArtifact two_paragraphs None None None None ''u1'']
                             flaky_world))
     = [''id-3'', ''id-2'', ''id-0'']
   \<and> r_id ` set (memories (run_ops [AddToMemory ''x'' ''u1'',
                                    RememberArtifact two_paragraphs None None None None ''u1'']
                             flaky_world))
     \<subseteq> v_id ` set (vindex (run_ops [AddToMemory ''x'' ''u1'',
                                    RememberArtifact two_paragraphs None None None None ''u1'']
                             flaky_world))"
  using flaky_world_empty flaky_world_run [THEN conjunct1] flaky_world_run [THEN conjunct2]
    C1_rows_always_have_vectors [OF flaky_world_empty,
      of "[AddToMemory ''x'' ''u1'', RememberArtifact two_paragraphs None None None None ''u1'']"]
  by (intro conjI)

text \<open>
  C1 as stated fails: with both stores empty and a D1 that throws, one add\_to\_memory
  leaves the new id in the Vector Index and no row in the Relational Store.
\<close>

theorem C1_counterexample:
  "vindex db_down_world = [] \<and> memories db_down_world = []
   \<and> map v_id (vindex (run_ops [AddToMemory ''x'' ''u1''] db_down_world)) = [''id-1'']
   \<and> memories (run_ops [AddToMemory ''x'' ''u1''] db_down_world) = []"
  by code_simp

end
